theory Spec2Isabelle
  imports Main "HOL-Library.Sublist" "HOL-Library.Monad_Syntax"
begin

section \<open>container.go: the optional container and the pair\<close>

text \<open>
  \<^verbatim>\<open>Maybe[T]\<close> holds a value or nothing. \<^verbatim>\<open>Tuple[U, V]\<close> is the HOL pair, with
  \<^verbatim>\<open>First\<close> and \<^verbatim>\<open>Second\<close> read by \<open>fst\<close> and \<open>snd\<close>.
\<close>

datatype 'a Maybe = Nothing | Just 'a

fun IsJust :: "'a Maybe \<Rightarrow> bool" where
  "IsJust (Just v) = True"
| "IsJust Nothing = False"

fun IsNothing :: "'a Maybe \<Rightarrow> bool" where
  "IsNothing (Just v) = False"
| "IsNothing Nothing = True"

section \<open>The parser type\<close>

text \<open>
  A Go string is a sequence of bytes: \<open>string\<close>, a list of 8-bit \<open>char\<close>s. A rune is a
  32-bit signed integer; no arithmetic is done on runes here, so they are integers.

  A \<^verbatim>\<open>Parser[T]\<close> wraps a Go function from the input to a \<^verbatim>\<open>Maybe[Tuple[T, string]]\<close>.
  A Go function need not return: \<^verbatim>\<open>ZeroOrMore\<close> below recurses for ever on some
  parsers, and the INI reader indexes out of range. So a call has three outcomes:
  \<open>None\<close> (the call does not return a value), \<open>Some Nothing\<close> (the parser fails) and
  \<open>Some (Just (v, rest))\<close> (the parser succeeds).
\<close>

type_synonym rune = int

type_synonym 'a ParserFuncRet = "('a \<times> string) Maybe"

type_synonym 'a Parser = "string \<Rightarrow> 'a ParserFuncRet option"

definition Pure :: "'a \<Rightarrow> 'a Parser" where
  "Pure val = (\<lambda>s. Some (Just (val, s)))"

definition Fail :: "'a Parser" where
  "Fail = (\<lambda>s. Some Nothing)"

section \<open>combinator.go\<close>

definition Fmap :: "'a Parser \<Rightarrow> ('a \<Rightarrow> 'b) \<Rightarrow> 'b Parser" where
  "Fmap p f = (\<lambda>s. do {
     m \<leftarrow> p s;
     case m of
       Nothing \<Rightarrow> Some Nothing
     | Just t \<Rightarrow> Some (Just (f (fst t), snd t)) })"

definition Bind :: "'a Parser \<Rightarrow> ('a \<Rightarrow> 'b Parser) \<Rightarrow> 'b Parser" where
  "Bind p f = (\<lambda>s. do {
     m \<leftarrow> p s;
     case m of
       Nothing \<Rightarrow> Some Nothing
     | Just t \<Rightarrow> f (fst t) (snd t) })"

text \<open>The loop over \<^verbatim>\<open>ps\<close>: every parser is given the same \<open>s\<close>.\<close>

fun OrElse :: "'a Parser list \<Rightarrow> 'a Parser" where
  "OrElse [] s = Some Nothing"
| "OrElse (p # ps) s = do {
     m \<leftarrow> p s;
     if IsJust m then Some m else OrElse ps s }"

text \<open>
  \<^verbatim>\<open>ZeroOrMore\<close> calls itself once for each match, with no bound: it is the least
  solution of its equation, and \<open>None\<close> where the recursion does not end.
\<close>

lemma Bind_mono [partial_function_mono]:
  assumes "\<And>x. mono_option (\<lambda>f. B f x)"
  shows "mono_option (\<lambda>f. Bind (B f) g s)"
  unfolding Bind_def
  by (intro bind_mono assms option.const_mono)

partial_function (option) ZeroOrMore :: "'a Parser \<Rightarrow> string \<Rightarrow> 'a list ParserFuncRet option" where
  "ZeroOrMore p s = do {
     m \<leftarrow> p s;
     case m of
       Nothing \<Rightarrow> Some (Just ([], s))
     | Just t \<Rightarrow> Bind (ZeroOrMore p) (\<lambda>ts. Pure (fst t # ts)) (snd t) }"

definition OneOrMore :: "'a Parser \<Rightarrow> 'a list Parser" where
  "OneOrMore p = (\<lambda>s. do {
     m \<leftarrow> p s;
     case m of
       Nothing \<Rightarrow> Some Nothing
     | Just t \<Rightarrow> Bind (ZeroOrMore p) (\<lambda>ts. Pure (fst t # ts)) (snd t) })"

definition ZeroOrOne :: "'a Parser \<Rightarrow> 'a Maybe Parser" where
  "ZeroOrOne p = (\<lambda>s. do {
     m \<leftarrow> p s;
     case m of
       Nothing \<Rightarrow> Some (Just (Nothing, s))
     | Just t \<Rightarrow> Some (Just (Just (fst t), snd t)) })"

definition OmitLeft :: "'a Parser \<Rightarrow> 'b Parser \<Rightarrow> 'b Parser" where
  "OmitLeft p q = Bind p (\<lambda>_. q)"

definition OmitRight :: "'a Parser \<Rightarrow> 'b Parser \<Rightarrow> 'a Parser" where
  "OmitRight p q = Bind p (\<lambda>t. Bind q (\<lambda>_. Pure t))"

definition SepBy :: "'a Parser \<Rightarrow> 'b Parser \<Rightarrow> 'a list Parser" where
  "SepBy p sep = OrElse
     [Bind p (\<lambda>first.
        Fmap (ZeroOrMore (Bind sep (\<lambda>_. p))) (\<lambda>rest. first # rest)),
      Pure []]"

text \<open>\<^verbatim>\<open>rune(s[0])\<close> is the value of the first byte, \<^verbatim>\<open>s[1:]\<close> the bytes after it.\<close>

definition Satisfy :: "(rune \<Rightarrow> bool) \<Rightarrow> rune Parser" where
  "Satisfy f = (\<lambda>s.
     if length s = 0 then Some Nothing
     else if f (of_char (s ! 0)) then Some (Just (of_char (s ! 0), drop 1 s))
     else Some Nothing)"

definition SatisfyWith :: "'a Parser \<Rightarrow> ('a \<Rightarrow> bool) \<Rightarrow> 'a Parser" where
  "SatisfyWith p f = Bind p (\<lambda>t. if f t then Pure t else Fail)"

section \<open>Conversions of the Go language and library\<close>

text \<open>
  \<^verbatim>\<open>string(r)\<close> for a rune is the UTF-8 encoding of \<open>r\<close>, and the encoding of U+FFFD
  for a value that is no Unicode code point; \<^verbatim>\<open>string(rs)\<close> for a slice of runes
  concatenates the encodings.
\<close>

definition string_of_rune :: "rune \<Rightarrow> string" where
  "string_of_rune r =
     (if 0 \<le> r \<and> r < 0x80 then [char_of r]
      else if 0x80 \<le> r \<and> r < 0x800 then
        [char_of (0xC0 + r div 0x40), char_of (0x80 + r mod 0x40)]
      else if r < 0 \<or> 0x10FFFF < r \<or> (0xD800 \<le> r \<and> r \<le> 0xDFFF) then
        [char_of (0xEF :: int), char_of (0xBF :: int), char_of (0xBD :: int)]
      else if r < 0x10000 then
        [char_of (0xE0 + r div 0x1000), char_of (0x80 + (r div 0x40) mod 0x40),
         char_of (0x80 + r mod 0x40)]
      else
        [char_of (0xF0 + r div 0x40000), char_of (0x80 + (r div 0x1000) mod 0x40),
         char_of (0x80 + (r div 0x40) mod 0x40), char_of (0x80 + r mod 0x40)])"

definition string_of_runes :: "rune list \<Rightarrow> string" where
  "string_of_runes rs = concat (map string_of_rune rs)"

text \<open>
  \<^verbatim>\<open>strconv.ParseInt(s, 10, 64)\<close> with its error dropped, as the source drops it: an
  optional sign and decimal digits; 0 on a syntax error; the nearest 64-bit bound when
  the number is out of range.
\<close>

definition is_digit_byte :: "char \<Rightarrow> bool" where
  "is_digit_byte c \<longleftrightarrow> (48::nat) \<le> of_char c \<and> of_char c \<le> (57::nat)"

definition digits_value :: "string \<Rightarrow> nat" where
  "digits_value s = foldl (\<lambda>acc c. 10 * acc + (of_char c - 48)) 0 s"

definition ParseInt :: "string \<Rightarrow> int" where
  "ParseInt s =
     (if s = [] then 0
      else
        let neg = (hd s = CHR ''-'');
            body = (if hd s = CHR ''+'' \<or> hd s = CHR ''-'' then tl s else s)
        in if body = [] \<or> \<not> list_all is_digit_byte body then 0
           else
             let un = digits_value body
             in if \<not> neg \<and> un \<ge> 2 ^ 63 then 2 ^ 63 - 1
                else if neg \<and> un > 2 ^ 63 then - (2 ^ 63)
                else if neg then - int un else int un)"

section \<open>basic.go\<close>

text \<open>\<^verbatim>\<open>Char\<close> of the source; the name \<open>Char\<close> is the constructor of HOL's characters.\<close>

definition Char_parser :: "rune \<Rightarrow> rune Parser" where
  "Char_parser c = Satisfy (\<lambda>r. r = c)"

text \<open>
  \<^verbatim>\<open>strings.HasPrefix(s, str)\<close> is \<open>prefix str s\<close>; \<^verbatim>\<open>strings.TrimPrefix(s, str)\<close>
  then returns \<^verbatim>\<open>s[len(str):]\<close>.
\<close>

definition Str :: "string \<Rightarrow> string Parser" where
  "Str str = (\<lambda>s.
     if prefix str s then Some (Just (str, drop (length str) s))
     else Some Nothing)"

definition Digit :: "rune Parser" where
  "Digit = Satisfy (\<lambda>r. r \<ge> of_char CHR ''0'' \<and> r \<le> of_char CHR ''9'')"

definition Digits :: "string Parser" where
  "Digits = Fmap (OneOrMore Digit) (\<lambda>rs. string_of_runes rs)"

definition Alpha :: "rune Parser" where
  "Alpha = Satisfy (\<lambda>r.
     (r \<ge> of_char CHR ''a'' \<and> r \<le> of_char CHR ''z'') \<or>
     (r \<ge> of_char CHR ''A'' \<and> r \<le> of_char CHR ''Z''))"

definition Alphas :: "string Parser" where
  "Alphas = Fmap (OneOrMore Alpha) (\<lambda>rs. string_of_runes rs)"

definition Space :: "rune Parser" where
  "Space = Satisfy (\<lambda>r. r = of_char CHR '' '' \<or> r = 9 \<or> r = 10)"

definition Spaces :: "string Parser" where
  "Spaces = Fmap (ZeroOrMore Space) (\<lambda>rs. string_of_runes rs)"

section \<open>combinator.go, continued\<close>

definition TrimLeft :: "'a Parser \<Rightarrow> 'a Parser" where
  "TrimLeft p = OmitLeft Spaces p"

definition TrimRight :: "'a Parser \<Rightarrow> 'a Parser" where
  "TrimRight p = OmitRight p Spaces"

definition Trim :: "'a Parser \<Rightarrow> 'a Parser" where
  "Trim p = TrimLeft (TrimRight p)"

primrec Seq :: "'a Parser list \<Rightarrow> 'a list Parser" where
  "Seq [] = (\<lambda>s. Some (Just ([], s)))"
| "Seq (p # ps) = Bind p (\<lambda>t. Bind (Seq ps) (\<lambda>ts. Pure (t # ts)))"

definition Between :: "'a Parser \<Rightarrow> 'b Parser \<Rightarrow> 'c Parser \<Rightarrow> 'b Parser" where
  "Between p q r = Bind p (\<lambda>_. Bind q (\<lambda>t. Bind r (\<lambda>_. Pure t)))"

definition Lazy :: "(unit \<Rightarrow> 'a Parser) \<Rightarrow> 'a Parser" where
  "Lazy f = (\<lambda>s. f () s)"

text \<open>\<^verbatim>\<open>ToString\<close> at its two type arguments, a rune and a slice of runes.\<close>

definition ToString_rune :: "rune Parser \<Rightarrow> bool \<Rightarrow> string Parser" where
  "ToString_rune p shouldTrim =
     Fmap (if shouldTrim then Trim p else p) (\<lambda>t. string_of_rune t)"

definition ToString_runes :: "rune list Parser \<Rightarrow> bool \<Rightarrow> string Parser" where
  "ToString_runes p shouldTrim =
     Fmap (if shouldTrim then Trim p else p) (\<lambda>t. string_of_runes t)"

section \<open>basic.go, continued\<close>

definition Symbol :: "string \<Rightarrow> string Parser" where
  "Symbol str = Trim (Str str)"

definition Sign :: "rune Parser" where
  "Sign = Bind
     (ZeroOrOne (OrElse [Char_parser (of_char CHR ''-''), Char_parser (of_char CHR ''+'')]))
     (\<lambda>r. case r of
        Nothing \<Rightarrow> Pure (of_char CHR ''+'')
      | Just c \<Rightarrow> Pure c)"

definition IntegerWithoutSign :: "int Parser" where
  "IntegerWithoutSign = Fmap Digits (\<lambda>digits. ParseInt digits)"

definition Integer :: "int Parser" where
  "Integer = Bind Sign (\<lambda>sign.
     Fmap IntegerWithoutSign (\<lambda>i. if sign = of_char CHR ''-'' then - i else i))"

text \<open>
  A \<^verbatim>\<open>float64\<close> is a value of a type \<open>'f\<close>; \<^verbatim>\<open>strconv.ParseFloat(_, 64)\<close> with its error
  dropped and the negation of a \<^verbatim>\<open>float64\<close> are parameters.
\<close>

definition FloatWithoutSign :: "(string \<Rightarrow> 'f) \<Rightarrow> 'f Parser" where
  "FloatWithoutSign ParseFloat = Fmap
     (Seq [Digits, Fmap (Char_parser (of_char CHR ''.'')) (\<lambda>c. string_of_rune c), Digits])
     (\<lambda>strs. ParseFloat (concat strs))"

definition Float :: "(string \<Rightarrow> 'f) \<Rightarrow> ('f \<Rightarrow> 'f) \<Rightarrow> 'f Parser" where
  "Float ParseFloat fneg = Bind Sign (\<lambda>sign.
     Fmap (FloatWithoutSign ParseFloat)
       (\<lambda>f. if sign = of_char CHR ''-'' then fneg f else f))"

text \<open>
  The loop of \<^verbatim>\<open>String\<close> over the bytes after the opening quote: \<open>b\<close> is the buffer,
  \<open>escaped\<close> the flag. It ends at the end of the input with no result.
\<close>

fun String_loop :: "string \<Rightarrow> string \<Rightarrow> bool \<Rightarrow> string ParserFuncRet" where
  "String_loop [] b escaped = Nothing"
| "String_loop (c # cs) b escaped =
     (if escaped then String_loop cs (b @ [c]) False
      else if c = CHR 0x5C then String_loop cs b True
      else if c = CHR 0x22 then Just (b, cs)
      else String_loop cs (b @ [c]) escaped)"

definition String :: "string Parser" where
  "String = (\<lambda>s.
     if length s = 0 \<or> s ! 0 \<noteq> CHR 0x22 then Some Nothing
     else Some (String_loop (drop 1 s) [] False))"


section \<open>The JSON grammar\<close>

text \<open>
  The JSON values. \<^verbatim>\<open>JsonInt\<close> holds an \<^verbatim>\<open>int64\<close>: the only operation on it is the
  negation of a value that \<open>ParseInt\<close> returned for a string of digits, which stays in
  range, so it is an integer. \<^verbatim>\<open>JsonObject\<close> holds a Go map.
\<close>

datatype 'f Json =
    JsonNull
  | JsonBool bool
  | JsonInt int
  | JsonFloat 'f
  | JsonString string
  | JsonArray "'f Json list"
  | JsonObject "string \<Rightarrow> 'f Json option"

datatype 'f JsonPair = JsonPair (Key_json: string) (Value_json: "'f Json")

text \<open>
  \<^verbatim>\<open>Fmap\<close> for a Go function that indexes a slice or asserts a type: \<open>f\<close> gives \<open>None\<close>
  where the Go function panics, and the call of the parser does not return then.
\<close>

definition Fmap_partial :: "'a Parser \<Rightarrow> ('a \<Rightarrow> 'b option) \<Rightarrow> 'b Parser" where
  "Fmap_partial p f = (\<lambda>s. do {
     m \<leftarrow> p s;
     case m of
       Nothing \<Rightarrow> Some Nothing
     | Just t \<Rightarrow> do { v \<leftarrow> f (fst t); Some (Just (v, snd t)) } })"

definition JNull :: "'f Json Parser" where
  "JNull = Fmap (Symbol ''null'') (\<lambda>_. JsonNull)"

definition JBool :: "'f Json Parser" where
  "JBool = Fmap (OrElse [Symbol ''true'', Symbol ''false''])
     (\<lambda>str. JsonBool (str = ''true''))"

definition JInt :: "'f Json Parser" where
  "JInt = Trim (Fmap Integer (\<lambda>i. JsonInt i))"

definition JFloat :: "(string \<Rightarrow> 'f) \<Rightarrow> ('f \<Rightarrow> 'f) \<Rightarrow> 'f Json Parser" where
  "JFloat ParseFloat fneg = Trim (Fmap (Float ParseFloat fneg) (\<lambda>f. JsonFloat f))"

definition JString :: "'f Json Parser" where
  "JString = Trim (Fmap String (\<lambda>s. JsonString s))"

text \<open>
  \<^verbatim>\<open>JVal\<close>, \<^verbatim>\<open>JArray\<close>, \<^verbatim>\<open>JPair\<close> and \<^verbatim>\<open>JObject\<close> call one another. The array, pair and
  object parsers take the parser of values as an argument; \<open>JVal\<close> below closes the
  cycle.
\<close>

definition JArray :: "'f Json Parser \<Rightarrow> 'f Json Parser" where
  "JArray jval = Fmap
     (Between
        (Trim (Char_parser (of_char CHR ''['')))
        (SepBy jval (Trim (Char_parser (of_char CHR '',''))))
        (Trim (Char_parser (of_char CHR '']''))))
     (\<lambda>elements. JsonArray elements)"

definition JPair :: "'f Json Parser \<Rightarrow> 'f JsonPair Parser" where
  "JPair jval = Fmap_partial
     (Seq [JString,
           Trim (Fmap (Char_parser (of_char CHR '':'')) (\<lambda>r. JsonString '':'')),
           jval])
     (\<lambda>tuple.
        if length tuple \<le> 2 then None
        else case tuple ! 0 of
          JsonString k \<Rightarrow> Some (JsonPair k (tuple ! 2))
        | _ \<Rightarrow> None)"

definition JObject :: "'f Json Parser \<Rightarrow> 'f Json Parser" where
  "JObject jval = Fmap
     (Between
        (Trim (Char_parser (of_char CHR ''{'')))
        (SepBy (JPair jval) (Trim (Char_parser (of_char CHR '',''))))
        (Trim (Char_parser (of_char CHR ''}''))))
     (\<lambda>pairs. JsonObject
        (foldl (\<lambda>obj pair. obj(Key_json pair \<mapsto> Value_json pair)) Map.empty pairs))"

text \<open>
  \<^verbatim>\<open>JVal\<close> reaches itself only through \<^verbatim>\<open>Lazy(JArray)\<close> and \<^verbatim>\<open>Lazy(JObject)\<close>, once for
  each level of nesting of the input. The first argument after the float operations
  bounds the number of levels; with none left the call does not return.
\<close>

primrec JVal :: "(string \<Rightarrow> 'f) \<Rightarrow> ('f \<Rightarrow> 'f) \<Rightarrow> nat \<Rightarrow> 'f Json Parser" where
  "JVal ParseFloat fneg 0 = (\<lambda>s. None)"
| "JVal ParseFloat fneg (Suc n) = OrElse
     [JString,
      JFloat ParseFloat fneg,
      JInt,
      JBool,
      JNull,
      Lazy (\<lambda>_. JArray (JVal ParseFloat fneg n)),
      Lazy (\<lambda>_. JObject (JVal ParseFloat fneg n))]"

definition ParseJSON :: "(string \<Rightarrow> 'f) \<Rightarrow> ('f \<Rightarrow> 'f) \<Rightarrow> nat \<Rightarrow> string \<Rightarrow> 'f Json ParserFuncRet option" where
  "ParseJSON ParseFloat fneg n jsonStr = JVal ParseFloat fneg n jsonStr"

section \<open>The INI reader\<close>

record Entry =
  Key :: string
  Value :: string

record Section =
  Name :: string
  Entries :: "Entry list"

record Ini =
  Sections :: "Section list"

text \<open>
  \<^verbatim>\<open>strings.TrimSpace\<close> removes the leading and the trailing Unicode white space of a
  UTF-8 string. The white space characters are these byte sequences; a byte sequence
  that is not valid UTF-8 decodes to no white space character.
\<close>

definition unicode_spaces :: "string list" where
  "unicode_spaces =
     [[CHR 0x09], [CHR 0x0A], [CHR 0x0B], [CHR 0x0C], [CHR 0x0D], [CHR 0x20],
      [CHR 0xC2, CHR 0x85], [CHR 0xC2, CHR 0xA0], [CHR 0xE1, CHR 0x9A, CHR 0x80]] @
     map (\<lambda>c. [CHR 0xE2, CHR 0x80, c])
       [CHR 0x80, CHR 0x81, CHR 0x82, CHR 0x83, CHR 0x84, CHR 0x85, CHR 0x86, CHR 0x87,
        CHR 0x88, CHR 0x89, CHR 0x8A, CHR 0xA8, CHR 0xA9, CHR 0xAF] @
     [[CHR 0xE2, CHR 0x81, CHR 0x9F], [CHR 0xE3, CHR 0x80, CHR 0x80]]"

lemma unicode_spaces_nonempty:
  assumes "q \<in> set unicode_spaces"
  shows "q \<noteq> []"
  using assms by (auto simp: unicode_spaces_def)

function trim_space_left :: "string \<Rightarrow> string" where
  "trim_space_left s =
     (case find (\<lambda>q. prefix q s) unicode_spaces of
        None \<Rightarrow> s
      | Some q \<Rightarrow> trim_space_left (drop (length q) s))"
  by pat_completeness auto
termination
proof (relation "measure length")
  show "wf (measure length)" by simp
next
  fix s q
  assume "find (\<lambda>q. prefix q s) unicode_spaces = Some q"
  then have "q \<in> set unicode_spaces" and "prefix q s"
    by (auto simp: find_Some_iff)
  then have "q \<noteq> []" and "length q \<le> length s"
    by (auto simp: unicode_spaces_nonempty prefix_length_le)
  then show "(drop (length q) s, s) \<in> measure length"
    by (cases q) auto
qed

function trim_space_right :: "string \<Rightarrow> string" where
  "trim_space_right s =
     (case find (\<lambda>q. suffix q s) unicode_spaces of
        None \<Rightarrow> s
      | Some q \<Rightarrow> trim_space_right (take (length s - length q) s))"
  by pat_completeness auto
termination
proof (relation "measure length")
  show "wf (measure length)" by simp
next
  fix s q
  assume "find (\<lambda>q. suffix q s) unicode_spaces = Some q"
  then have "q \<in> set unicode_spaces" and "suffix q s"
    by (auto simp: find_Some_iff)
  then have "q \<noteq> []" and "length q \<le> length s"
    by (auto simp: unicode_spaces_nonempty suffix_length_le)
  then show "(take (length s - length q) s, s) \<in> measure length"
    by (cases q) auto
qed

declare trim_space_left.simps [simp del]

declare trim_space_right.simps [simp del]

definition TrimSpace :: "string \<Rightarrow> string" where
  "TrimSpace s = trim_space_right (trim_space_left s)"

text \<open>\<^verbatim>\<open>strings.Split(s, sep)\<close> for a separator of one byte.\<close>

function Split :: "string \<Rightarrow> char \<Rightarrow> string list" where
  "Split s sep =
     takeWhile (\<lambda>c. c \<noteq> sep) s #
     (case dropWhile (\<lambda>c. c \<noteq> sep) s of
        [] \<Rightarrow> []
      | _ # rest \<Rightarrow> Split rest sep)"
  by pat_completeness auto
termination
proof (relation "measure (\<lambda>(s, sep). length s)")
  show "wf (measure (\<lambda>(s, sep). length s))" by simp
next
  fix s :: string and sep c rest
  assume "dropWhile (\<lambda>c. c \<noteq> sep) s = c # rest"
  then have "Suc (length rest) = length (dropWhile (\<lambda>c. c \<noteq> sep) s)" by simp
  also have "\<dots> \<le> length s" by (rule length_dropWhile_le)
  finally show "((rest, sep), (s, sep)) \<in> measure (\<lambda>(s, sep). length s)" by simp
qed

declare Split.simps [simp del]

text \<open>
  Modelled from the spec: \<^verbatim>\<open>NotChar\<close> is called by the INI grammar and is not among the
  source files. The grammar reads with it the characters of a section name up to
  \<^verbatim>\<open>]\<close>, of a key up to \<^verbatim>\<open>=\<close> and of a value up to the end of the line: it is the
  single-character class primitive, built on \<^verbatim>\<open>Satisfy\<close>, of the characters other than
  the given one.
\<close>

definition NotChar :: "rune \<Rightarrow> rune Parser" where
  "NotChar c = Satisfy (\<lambda>r. r \<noteq> c)"

text \<open>
  The source files hold two versions of the INI reader, both of them defining
  \<^verbatim>\<open>ISectionName\<close> and \<^verbatim>\<open>IniParse\<close>. The later one, which the tests of the repository
  exercise (comment lines, the empty section name), keeps the names here; the earlier
  one has the suffix \<open>_v1\<close>.
\<close>

definition ISectionName_v1 :: "string Parser" where
  "ISectionName_v1 = Between
     (Trim (Char_parser (of_char CHR ''['')))
     (ToString_runes (ZeroOrMore (NotChar (of_char CHR '']''))) True)
     (Trim (Char_parser (of_char CHR '']'')))"

definition IEntry :: "Entry Parser" where
  "IEntry = Fmap_partial
     (Seq [ToString_runes (OneOrMore (NotChar (of_char CHR ''=''))) True,
           ToString_rune (Char_parser (of_char CHR ''='')) True,
           ToString_runes (OneOrMore (NotChar 10)) False])
     (\<lambda>strs.
        if length strs \<le> 2 then None
        else Some \<lparr>Key = TrimSpace (strs ! 0), Value = TrimSpace (strs ! 2)\<rparr>)"

definition ISection :: "Section Parser" where
  "ISection = Bind ISectionName_v1 (\<lambda>name.
     Fmap (SepBy IEntry (Char_parser 10)) (\<lambda>entries. \<lparr>Name = name, Entries = entries\<rparr>))"

definition IIni :: "Ini Parser" where
  "IIni = Fmap (ZeroOrMore ISection) (\<lambda>sections. \<lparr>Sections = sections\<rparr>)"

definition ISectionName :: "string Parser" where
  "ISectionName = Between
     (Trim (Char_parser (of_char CHR ''['')))
     (Bind (ZeroOrMore (NotChar (of_char CHR '']'')))
        (\<lambda>rs. let s = TrimSpace (string_of_runes rs)
              in if s = [] then Fail else Pure s))
     (Trim (Char_parser (of_char CHR '']'')))"

text \<open>
  The loops of the two versions of \<^verbatim>\<open>IniParse\<close> over the lines, with the sections read
  so far. An index out of range stops the Go program: the loop ends with \<open>Inl\<close> then,
  as it does when a parser it calls does not return.
\<close>

datatype abort = IndexOutOfRange | NoReturn

fun IniParse_loop_v1 :: "Section list \<Rightarrow> string list \<Rightarrow> abort + Section list" where
  "IniParse_loop_v1 sections [] = Inr sections"
| "IniParse_loop_v1 sections (str # strs) =
     (let s = TrimSpace str in
      if s = [] then IniParse_loop_v1 sections strs
      else case ISectionName_v1 s of
        None \<Rightarrow> Inl NoReturn
      | Some (Just r) \<Rightarrow>
          IniParse_loop_v1 (sections @ [\<lparr>Name = fst r, Entries = []\<rparr>]) strs
      | Some Nothing \<Rightarrow>
          (case IEntry s of
             None \<Rightarrow> Inl NoReturn
           | Some (Just t) \<Rightarrow>
               if sections = [] then Inl IndexOutOfRange
               else
                 let newEntries = Entries (last sections) @ [fst t]
                 in IniParse_loop_v1
                      (sections[length sections - 1 :=
                         (last sections)\<lparr>Entries := newEntries\<rparr>]) strs
           | Some Nothing \<Rightarrow> Inr sections))"

definition IniParse_v1 :: "Ini Parser" where
  "IniParse_v1 = (\<lambda>input.
     case IniParse_loop_v1 [] (Split input (CHR 0x0A)) of
       Inl a \<Rightarrow> None
     | Inr sections \<Rightarrow> Some (Just (\<lparr>Sections = sections\<rparr>, [])))"

fun IniParse_loop :: "Section list \<Rightarrow> string list \<Rightarrow> abort + Section list" where
  "IniParse_loop sections [] = Inr sections"
| "IniParse_loop sections (str # strs) =
     (let s = TrimSpace str in
      if s = [] \<or> prefix '';'' s \<or> prefix ''#'' s then IniParse_loop sections strs
      else case ISectionName s of
        None \<Rightarrow> Inl NoReturn
      | Some (Just r) \<Rightarrow>
          IniParse_loop (sections @ [\<lparr>Name = fst r, Entries = []\<rparr>]) strs
      | Some Nothing \<Rightarrow>
          (let t = Split s (CHR ''='') in
           if length t \<le> 1 then Inl IndexOutOfRange
           else
             let entry = \<lparr>Key = TrimSpace (t ! 0), Value = TrimSpace (t ! 1)\<rparr> in
             if sections = [] then Inl IndexOutOfRange
             else
               let newEntries = Entries (last sections) @ [entry]
               in IniParse_loop
                    (sections[length sections - 1 :=
                       (last sections)\<lparr>Entries := newEntries\<rparr>]) strs))"

definition IniParse :: "Ini Parser" where
  "IniParse = (\<lambda>input.
     case IniParse_loop [] (Split input (CHR 0x0A)) of
       Inl a \<Rightarrow> None
     | Inr sections \<Rightarrow> Some (Just (\<lparr>Sections = sections\<rparr>, [])))"

definition ParseINI :: "string \<Rightarrow> Ini ParserFuncRet option" where
  "ParseINI str = IniParse str"

section \<open>Predicates used to state the properties\<close>

text \<open>A parser returns on every input; every success of a parser consumes input.\<close>

definition always_returns :: "'a Parser \<Rightarrow> bool" where
  "always_returns p \<longleftrightarrow> (\<forall>s. p s \<noteq> None)"

definition consumes_input :: "'a Parser \<Rightarrow> bool" where
  "consumes_input p \<longleftrightarrow>
     (\<forall>s v rest. p s = Some (Just (v, rest)) \<longrightarrow> length rest < length s)"

text \<open>The first success: parser \<open>i\<close> succeeds on \<open>s\<close> and all before it fail on \<open>s\<close>.\<close>

definition first_success :: "'a Parser list \<Rightarrow> string \<Rightarrow> ('a \<times> string) \<Rightarrow> bool" where
  "first_success ps s r \<longleftrightarrow>
     (\<exists>i < length ps. (ps ! i) s = Some (Just r) \<and> (\<forall>j < i. (ps ! j) s = Some Nothing))"

text \<open>The bytes that \<^verbatim>\<open>Space\<close> accepts: space, tab and newline.\<close>

definition is_space_byte :: "char \<Rightarrow> bool" where
  "is_space_byte c \<longleftrightarrow> c = CHR '' '' \<or> c = CHR 0x09 \<or> c = CHR 0x0A"

text \<open>
  From \<open>s\<close>, the input is a run of separator matches each followed by an element
  match, with the values \<open>vs\<close>, and ends at \<open>s2\<close>.
\<close>

inductive separated :: "'a Parser \<Rightarrow> 'b Parser \<Rightarrow> string \<Rightarrow> 'a list \<Rightarrow> string \<Rightarrow> bool"
  for p :: "'a Parser" and sep :: "'b Parser" where
  separated_end: "separated p sep s [] s"
| separated_more: "sep s = Some (Just (u, t)) \<Longrightarrow> p t = Some (Just (v, s1)) \<Longrightarrow>
     separated p sep s1 vs s2 \<Longrightarrow> separated p sep s (v # vs) s2"

text \<open>Whenever the parser succeeds, the remaining input is a suffix of its input.\<close>

definition keeps_suffix :: "'a Parser \<Rightarrow> bool" where
  "keeps_suffix p \<longleftrightarrow> (\<forall>s v rest. p s = Some (Just (v, rest)) \<longrightarrow> suffix rest s)"

text \<open>
  The text between the quotes of a string literal, as the specification describes it:
  a sequence of pieces, each a plain character (neither a backslash nor a double
  quote) or a backslash followed by any character. The contents of the literal are
  the characters of the pieces, an escaped character taken as it is.
\<close>

datatype piece = Plain char | Escaped char

fun piece_bytes :: "piece \<Rightarrow> string" where
  "piece_bytes (Plain c) = [c]"
| "piece_bytes (Escaped c) = [CHR 0x5C, c]"

fun piece_char :: "piece \<Rightarrow> char" where
  "piece_char (Plain c) = c"
| "piece_char (Escaped c) = c"

fun well_formed :: "piece \<Rightarrow> bool" where
  "well_formed (Plain c) = (c \<noteq> CHR 0x5C \<and> c \<noteq> CHR 0x22)"
| "well_formed (Escaped c) = True"

definition source_text :: "piece list \<Rightarrow> string" where
  "source_text ps = concat (map piece_bytes ps)"

definition contents :: "piece list \<Rightarrow> string" where
  "contents ps = map piece_char ps"

section \<open>Bytes and runes\<close>

lemma of_char_int_range: "0 \<le> (of_char c :: int) \<and> (of_char c :: int) < 256"
proof -
  have "(of_char c :: int) = int (of_char c)" by (simp add: of_nat_of_char)
  moreover have "(of_char c :: nat) < 256" by (rule nat_of_char_less_256)
  ultimately show ?thesis by simp
qed

lemma string_of_rune_byte:
  assumes "(of_char c :: int) < 128"
  shows "string_of_rune (of_char c) = [c]"
  using assms of_char_int_range[of c] by (simp add: string_of_rune_def)

lemma string_of_runes_bytes:
  assumes "\<forall>c \<in> set cs. (of_char c :: int) < 128"
  shows "string_of_runes (map of_char cs) = cs"
  using assms by (induction cs) (simp_all add: string_of_runes_def string_of_rune_byte)

lemma space_runes:
  "(of_char c = (32::int)) = (c = CHR '' '')"
  "(of_char c = (9::int)) = (c = CHR 0x09)"
  "(of_char c = (10::int)) = (c = CHR 0x0A)"
  using of_char_eq_iff[of c "CHR '' ''", where ?'a = int]
    of_char_eq_iff[of c "CHR 0x09", where ?'a = int]
    of_char_eq_iff[of c "CHR 0x0A", where ?'a = int]
  by simp_all

section \<open>Satisfy\<close>

lemma Satisfy_Nil: "Satisfy f [] = Some Nothing"
  by (simp add: Satisfy_def)

lemma Satisfy_Cons:
  "Satisfy f (c # cs) = (if f (of_char c) then Some (Just (of_char c, cs)) else Some Nothing)"
  by (simp add: Satisfy_def)

lemma Satisfy_byte_only:
  assumes "\<And>r. 0 \<le> r \<Longrightarrow> r < 256 \<Longrightarrow> f r = g r"
  shows "Satisfy f = Satisfy g"
proof
  fix s
  have "f (of_char (s ! 0)) = g (of_char (s ! 0))"
    using assms of_char_int_range by blast
  then show "Satisfy f s = Satisfy g s" by (simp add: Satisfy_def)
qed

lemma Satisfy_Just:
  assumes "Satisfy f s = Some (Just (r, rest))"
  shows "f r \<and> 0 \<le> r \<and> r < 256 \<and> s = char_of r # rest"
proof (cases s)
  case Nil
  with assms show ?thesis by (simp add: Satisfy_def)
next
  case (Cons c cs)
  with assms have "f (of_char c)" "r = of_char c" "rest = cs"
    by (auto simp: Satisfy_def split: if_splits)
  with Cons of_char_int_range[of c] show ?thesis by simp
qed

lemma Satisfy_returns: "always_returns (Satisfy f)"
  by (simp add: always_returns_def Satisfy_def)

lemma Satisfy_consumes: "consumes_input (Satisfy f)"
  unfolding consumes_input_def
proof (intro allI impI)
  fix s v rest
  assume "Satisfy f s = Some (Just (v, rest))"
  then have "s = char_of v # rest" using Satisfy_Just by blast
  then show "length rest < length s" by simp
qed

text \<open>
  C10. \<^verbatim>\<open>Satisfy(f)\<close> fails on the empty input. On a non-empty input it applies \<open>f\<close> to
  the value of the first byte and, when \<open>f\<close> accepts it, returns that value and the
  input after that one byte. The value tested is always below 256, so \<open>f\<close> is never
  asked about a character that takes several bytes: two predicates that agree on
  0..255 give the same parser.
\<close>

theorem Satisfy_tests_first_byte:
  "Satisfy f [] = Some Nothing \<and>
   Satisfy f (c # cs) =
     (if f (of_char c) then Some (Just (of_char c, cs)) else Some Nothing) \<and>
   (Satisfy f s = Some (Just (r, rest)) \<longrightarrow>
      f r \<and> 0 \<le> r \<and> r < 256 \<and> s = char_of r # rest \<and> length s = length rest + 1) \<and>
   ((\<forall>r. 0 \<le> r \<and> r < 256 \<longrightarrow> f r = g r) \<longrightarrow> Satisfy f = Satisfy g)"
proof (intro conjI impI)
  show "Satisfy f [] = Some Nothing" by (rule Satisfy_Nil)
  show "Satisfy f (c # cs) =
    (if f (of_char c) then Some (Just (of_char c, cs)) else Some Nothing)"
    by (rule Satisfy_Cons)
next
  assume a: "Satisfy f s = Some (Just (r, rest))"
  from Satisfy_Just[OF a] show "f r" "0 \<le> r" "r < 256" "s = char_of r # rest"
    by simp_all
  then show "length s = length rest + 1" by simp
next
  assume "\<forall>r. 0 \<le> r \<and> r < 256 \<longrightarrow> f r = g r"
  then show "Satisfy f = Satisfy g" by (intro Satisfy_byte_only) blast
qed

text \<open>
  The euro sign U+20AC is the three bytes E2 82 AC. A predicate that accepts only the
  rune 0x20AC is the parser that always fails; the predicate that accepts everything
  takes the byte E2 alone.
\<close>

theorem Satisfy_tests_first_byte_witness:
  "Satisfy (\<lambda>r. r = 0x20AC) = Satisfy (\<lambda>r. False) \<and>
   Satisfy (\<lambda>r. r = 0x20AC) [CHR 0xE2, CHR 0x82, CHR 0xAC] = Some Nothing \<and>
   Satisfy (\<lambda>r. True) [CHR 0xE2, CHR 0x82, CHR 0xAC] =
     Some (Just (0xE2, [CHR 0x82, CHR 0xAC]))"
proof -
  have agree: "\<forall>r::int. 0 \<le> r \<and> r < 256 \<longrightarrow> (r = 0x20AC) = False" by simp
  have same: "Satisfy (\<lambda>r. r = 0x20AC) = Satisfy (\<lambda>r. False)"
    using Satisfy_tests_first_byte[of "\<lambda>r. r = 0x20AC" _ _ _ _ _ "\<lambda>r. False"] agree
    by blast
  have "Satisfy (\<lambda>r. r = 0x20AC) [CHR 0xE2, CHR 0x82, CHR 0xAC] = Some Nothing"
    by (simp add: same Satisfy_def)
  moreover have "Satisfy (\<lambda>r. True) [CHR 0xE2, CHR 0x82, CHR 0xAC] =
     Some (Just (0xE2, [CHR 0x82, CHR 0xAC]))"
    by (simp add: Satisfy_def)
  ultimately show ?thesis using same by simp
qed

section \<open>OrElse\<close>

lemma OrElse_skip:
  "OrElse ps s =
     (case dropWhile (\<lambda>p. p s = Some Nothing) ps of
        [] \<Rightarrow> Some Nothing
      | p # _ \<Rightarrow> p s)"
proof (induction ps)
  case Nil
  show ?case by simp
next
  case (Cons p ps)
  show ?case
  proof (cases "p s")
    case None
    then show ?thesis by simp
  next
    case (Some m)
    with Cons show ?thesis by (cases m) auto
  qed
qed

lemma OrElse_Nothing_iff:
  "OrElse ps s = Some Nothing \<longleftrightarrow> (\<forall>p \<in> set ps. p s = Some Nothing)"
proof (induction ps)
  case Nil
  show ?case by simp
next
  case (Cons p ps)
  show ?case
  proof (cases "p s")
    case None
    then show ?thesis by simp
  next
    case (Some m)
    with Cons show ?thesis by (cases m) auto
  qed
qed

lemma first_success_Nil: "\<not> first_success [] s r"
  by (simp add: first_success_def)

lemma first_success_Cons_None:
  assumes "p s = None"
  shows "\<not> first_success (p # ps) s r"
proof
  assume "first_success (p # ps) s r"
  then obtain i where i: "((p # ps) ! i) s = Some (Just r)"
    "\<forall>j < i. ((p # ps) ! j) s = Some Nothing"
    unfolding first_success_def by blast
  show False
  proof (cases i)
    case 0
    with i assms show False by simp
  next
    case (Suc k)
    with i(2) have "((p # ps) ! 0) s = Some Nothing" by blast
    with assms show False by simp
  qed
qed

lemma first_success_Cons_Just:
  assumes "p s = Some (Just t)"
  shows "first_success (p # ps) s r \<longleftrightarrow> t = r"
proof
  assume "first_success (p # ps) s r"
  then obtain i where i: "((p # ps) ! i) s = Some (Just r)"
    "\<forall>j < i. ((p # ps) ! j) s = Some Nothing"
    unfolding first_success_def by blast
  show "t = r"
  proof (cases i)
    case 0
    with i assms show ?thesis by simp
  next
    case (Suc k)
    with i(2) have "((p # ps) ! 0) s = Some Nothing" by blast
    with assms show ?thesis by simp
  qed
next
  assume "t = r"
  with assms have "((p # ps) ! 0) s = Some (Just r)" by simp
  then show "first_success (p # ps) s r"
    unfolding first_success_def by (intro exI[of _ 0]) simp
qed

lemma first_success_Cons_Nothing:
  assumes "p s = Some Nothing"
  shows "first_success (p # ps) s r \<longleftrightarrow> first_success ps s r"
proof
  assume "first_success (p # ps) s r"
  then obtain i where i: "i < length (p # ps)" "((p # ps) ! i) s = Some (Just r)"
    "\<forall>j < i. ((p # ps) ! j) s = Some Nothing"
    unfolding first_success_def by blast
  from i(2) assms obtain k where k: "i = Suc k" by (cases i) auto
  have "\<forall>j < k. (ps ! j) s = Some Nothing"
  proof (intro allI impI)
    fix j assume "j < k"
    then have "Suc j < i" using k by simp
    with i(3) have "((p # ps) ! Suc j) s = Some Nothing" by blast
    then show "(ps ! j) s = Some Nothing" by simp
  qed
  with i k show "first_success ps s r"
    unfolding first_success_def by (intro exI[of _ k]) simp
next
  assume "first_success ps s r"
  then obtain k where k: "k < length ps" "(ps ! k) s = Some (Just r)"
    "\<forall>j < k. (ps ! j) s = Some Nothing"
    unfolding first_success_def by blast
  have "\<forall>j < Suc k. ((p # ps) ! j) s = Some Nothing"
  proof (intro allI impI)
    fix j assume "j < Suc k"
    then show "((p # ps) ! j) s = Some Nothing"
      using k(3) assms by (cases j) auto
  qed
  with k show "first_success (p # ps) s r"
    unfolding first_success_def by (intro exI[of _ "Suc k"]) simp
qed

lemma OrElse_Just_iff: "OrElse ps s = Some (Just r) \<longleftrightarrow> first_success ps s r"
proof (induction ps)
  case Nil
  show ?case by (simp add: first_success_Nil)
next
  case (Cons p ps)
  show ?case
  proof (cases "p s")
    case None
    then show ?thesis by (simp add: first_success_Cons_None)
  next
    case (Some m)
    show ?thesis
    proof (cases m)
      case Nothing
      with Some Cons show ?thesis by (simp add: first_success_Cons_Nothing)
    next
      case (Just t)
      with Some show ?thesis by (simp add: first_success_Cons_Just)
    qed
  qed
qed

text \<open>
  C6. \<^verbatim>\<open>OrElse(p1, ..., pn)\<close> gives every parser the original input \<open>s\<close>, in order. It
  succeeds with \<open>r\<close> exactly when some parser succeeds with \<open>r\<close> on \<open>s\<close> and every
  parser before it fails on \<open>s\<close>; it fails exactly when all of them fail on \<open>s\<close>. Where
  \<open>p1\<close> and \<open>p2\<close> both succeed, \<^verbatim>\<open>OrElse(p1, p2)\<close> returns the result of \<open>p1\<close>.
\<close>

theorem OrElse_returns_first_success:
  "(OrElse ps s = Some (Just r) \<longleftrightarrow> first_success ps s r) \<and>
   (OrElse ps s = Some Nothing \<longleftrightarrow> (\<forall>p \<in> set ps. p s = Some Nothing)) \<and>
   (p1 s = Some (Just r1) \<and> p2 s = Some (Just r2) \<longrightarrow> OrElse [p1, p2] s = Some (Just r1))"
proof (intro conjI impI)
  show "OrElse ps s = Some (Just r) \<longleftrightarrow> first_success ps s r"
    by (rule OrElse_Just_iff)
  show "OrElse ps s = Some Nothing \<longleftrightarrow> (\<forall>p \<in> set ps. p s = Some Nothing)"
    by (rule OrElse_Nothing_iff)
next
  assume "p1 s = Some (Just r1) \<and> p2 s = Some (Just r2)"
  then show "OrElse [p1, p2] s = Some (Just r1)" by simp
qed

theorem OrElse_returns_first_success_witness:
  "Str ''ab'' ''abc'' = Some (Just (''ab'', ''c'')) \<and>
   Str ''a'' ''abc'' = Some (Just (''a'', ''bc'')) \<and>
   OrElse [Str ''ab'', Str ''a''] ''abc'' = Some (Just (''ab'', ''c'')) \<and>
   first_success [Str ''x'', Str ''ab'', Str ''a''] ''abc'' (''ab'', ''c'') \<and>
   OrElse [Str ''x'', Str ''y''] ''abc'' = Some Nothing"
proof -
  have 1: "Str ''ab'' ''abc'' = Some (Just (''ab'', ''c''))" by (simp add: Str_def)
  have 2: "Str ''a'' ''abc'' = Some (Just (''a'', ''bc''))" by (simp add: Str_def)
  have 3: "OrElse [Str ''ab'', Str ''a''] ''abc'' = Some (Just (''ab'', ''c''))"
    using OrElse_returns_first_success[of _ "''abc''" _ "Str ''ab''" "(''ab'', ''c'')"
        "Str ''a''" "(''a'', ''bc'')"] 1 2
    by blast
  have "OrElse [Str ''x'', Str ''ab'', Str ''a''] ''abc'' = Some (Just (''ab'', ''c''))"
    by (simp add: Str_def)
  then have 4: "first_success [Str ''x'', Str ''ab'', Str ''a''] ''abc'' (''ab'', ''c'')"
    using OrElse_returns_first_success[of "[Str ''x'', Str ''ab'', Str ''a'']" "''abc''"
        "(''ab'', ''c'')"]
    by blast
  have "\<forall>p \<in> set [Str ''x'', Str ''y'']. p ''abc'' = Some Nothing" by (simp add: Str_def)
  then have 5: "OrElse [Str ''x'', Str ''y''] ''abc'' = Some Nothing"
    using OrElse_returns_first_success[of "[Str ''x'', Str ''y'']" "''abc''"] by blast
  from 1 2 3 4 5 show ?thesis by blast
qed

section \<open>ZeroOrMore and OneOrMore\<close>

lemma ZeroOrMore_not_Nothing:
  assumes "ZeroOrMore p s = Some m"
  shows "m \<noteq> Nothing"
proof (rule ZeroOrMore.raw_induct[where P = "\<lambda>p s m. m \<noteq> Nothing", OF _ assms])
  fix zom :: "'a Parser \<Rightarrow> string \<Rightarrow> 'a list ParserFuncRet option" and p s m
  assume "\<And>q t y. zom q t = Some y \<Longrightarrow> y \<noteq> Nothing"
    and "do { m \<leftarrow> p s;
              case m of
                Nothing \<Rightarrow> Some (Just ([], s))
              | Just t \<Rightarrow> Bind (zom p) (\<lambda>ts. Pure (fst t # ts)) (snd t) } = Some m"
  then show "m \<noteq> Nothing"
    by (auto simp: Bind_def Pure_def split: bind_splits Maybe.splits)
qed

lemma ZeroOrMore_never_Nothing: "ZeroOrMore p s \<noteq> Some Nothing"
  using ZeroOrMore_not_Nothing by blast

lemma ZeroOrMore_fail:
  assumes "p s = Some Nothing"
  shows "ZeroOrMore p s = Some (Just ([], s))"
  using assms by (subst ZeroOrMore.simps) simp

lemma ZeroOrMore_step:
  assumes "p s = Some (Just (v, s1))" and "ZeroOrMore p s1 = Some (Just (vs, s2))"
  shows "ZeroOrMore p s = Some (Just (v # vs, s2))"
  using assms by (subst ZeroOrMore.simps) (simp add: Bind_def Pure_def)

lemma ZeroOrMore_no_return:
  assumes "p s = None"
  shows "ZeroOrMore p s = None"
  using assms by (subst ZeroOrMore.simps) simp

lemma ZeroOrMore_not_Pure:
  assumes "ZeroOrMore p s = Some m"
  shows "p \<noteq> Pure v"
proof (rule ZeroOrMore.raw_induct[where P = "\<lambda>p s m. p \<noteq> Pure v", OF _ assms])
  fix zom :: "'a Parser \<Rightarrow> string \<Rightarrow> 'a list ParserFuncRet option" and p s m
  assume "\<And>q t y. zom q t = Some y \<Longrightarrow> q \<noteq> Pure v"
    and "do { m \<leftarrow> p s;
              case m of
                Nothing \<Rightarrow> Some (Just ([], s))
              | Just t \<Rightarrow> Bind (zom p) (\<lambda>ts. Pure (fst t # ts)) (snd t) } = Some m"
  then show "p \<noteq> Pure v"
    by (auto simp: Bind_def Pure_def split: bind_splits Maybe.splits)
qed

lemma ZeroOrMore_Pure: "ZeroOrMore (Pure v) s = None"
  using ZeroOrMore_not_Pure[of "Pure v" s _ v] by (cases "ZeroOrMore (Pure v) s") auto

lemma ZeroOrMore_returns:
  assumes "always_returns p" and "consumes_input p"
  shows "\<exists>vs rest. ZeroOrMore p s = Some (Just (vs, rest))"
proof (induction s rule: length_induct)
  case (1 s)
  from assms(1) obtain m where m: "p s = Some m" by (auto simp: always_returns_def)
  show ?case
  proof (cases m)
    case Nothing
    with m show ?thesis by (simp add: ZeroOrMore_fail)
  next
    case (Just t)
    obtain v rest where t: "t = (v, rest)" by (cases t)
    with m Just assms(2) have "length rest < length s" by (auto simp: consumes_input_def)
    with 1 obtain vs rest' where "ZeroOrMore p rest = Some (Just (vs, rest'))" by blast
    with m Just t show ?thesis by (auto simp: ZeroOrMore_step)
  qed
qed

text \<open>
  C4, as the code has it. \<^verbatim>\<open>ZeroOrMore(p)\<close> never returns a failure, and where \<open>p\<close>
  fails at \<open>s\<close> it returns the empty sequence and \<open>s\<close>. It returns a result on every
  input when \<open>p\<close> itself always returns and every success of \<open>p\<close> consumes at least one
  byte.
\<close>

theorem ZeroOrMore_never_fails:
  "ZeroOrMore p s \<noteq> Some Nothing \<and>
   (p s = Some Nothing \<longrightarrow> ZeroOrMore p s = Some (Just ([], s))) \<and>
   (always_returns p \<and> consumes_input p \<longrightarrow>
      (\<exists>vs rest. ZeroOrMore p s = Some (Just (vs, rest))))"
  using ZeroOrMore_never_Nothing ZeroOrMore_fail ZeroOrMore_returns by blast

theorem ZeroOrMore_never_fails_witness:
  "Digit ''x'' = Some Nothing \<and>
   ZeroOrMore Digit ''x'' = Some (Just ([], ''x'')) \<and>
   always_returns Digit \<and> consumes_input Digit \<and>
   (\<exists>vs rest. ZeroOrMore Digit ''12a'' = Some (Just (vs, rest)))"
proof -
  have 1: "Digit ''x'' = Some Nothing" by (simp add: Digit_def Satisfy_def)
  have 2: "always_returns Digit" unfolding Digit_def by (rule Satisfy_returns)
  have 3: "consumes_input Digit" unfolding Digit_def by (rule Satisfy_consumes)
  from 1 have "ZeroOrMore Digit ''x'' = Some (Just ([], ''x''))"
    using ZeroOrMore_never_fails[of Digit "''x''"] by blast
  moreover from 2 3 have "\<exists>vs rest. ZeroOrMore Digit ''12a'' = Some (Just (vs, rest))"
    using ZeroOrMore_never_fails[of Digit "''12a''"] by blast
  ultimately show ?thesis using 1 2 3 by blast
qed

text \<open>
  The claim as the specification states it, "for every parser \<open>p\<close> the result is
  present", fails: \<^verbatim>\<open>Pure(v)\<close> succeeds without consuming, and \<^verbatim>\<open>ZeroOrMore(Pure(v))\<close>
  calls itself on the same input for ever.
\<close>

theorem ZeroOrMore_Pure_no_result: "ZeroOrMore (Pure (0 :: nat)) [] = None"
  by (rule ZeroOrMore_Pure)

text \<open>
  C5. \<^verbatim>\<open>OneOrMore(p)\<close> fails on \<open>s\<close> if and only if \<open>p\<close> fails on \<open>s\<close>.
\<close>

theorem OneOrMore_fails_iff: "OneOrMore p s = Some Nothing \<longleftrightarrow> p s = Some Nothing"
proof (cases "p s")
  case None
  then show ?thesis by (simp add: OneOrMore_def)
next
  case (Some m)
  show ?thesis
  proof (cases m)
    case Nothing
    with Some show ?thesis by (simp add: OneOrMore_def)
  next
    case (Just t)
    have "ZeroOrMore p (snd t) \<noteq> Some Nothing" by (rule ZeroOrMore_never_Nothing)
    with Some Just show ?thesis
      by (auto simp: OneOrMore_def Bind_def Pure_def split: bind_splits Maybe.splits)
  qed
qed

theorem OneOrMore_fails_iff_witness:
  "Digit ''x1'' = Some Nothing \<and> OneOrMore Digit ''x1'' = Some Nothing \<and>
   Digit ''1x'' \<noteq> Some Nothing \<and> OneOrMore Digit ''1x'' \<noteq> Some Nothing"
proof -
  have 1: "Digit ''x1'' = Some Nothing" by (simp add: Digit_def Satisfy_def)
  have 2: "Digit ''1x'' \<noteq> Some Nothing" by (simp add: Digit_def Satisfy_def)
  from 1 2 show ?thesis
    using OneOrMore_fails_iff[of Digit "''x1''"] OneOrMore_fails_iff[of Digit "''1x''"]
    by blast
qed


section \<open>Repetition of a single-byte parser, and white space\<close>

lemma ZeroOrMore_case:
  "ZeroOrMore p s =
     (case p s of
        None \<Rightarrow> None
      | Some Nothing \<Rightarrow> Some (Just ([], s))
      | Some (Just t) \<Rightarrow>
          (case ZeroOrMore p (snd t) of
             None \<Rightarrow> None
           | Some Nothing \<Rightarrow> Some Nothing
           | Some (Just t') \<Rightarrow> Some (Just (fst t # fst t', snd t'))))"
  by (subst ZeroOrMore.simps) (simp add: Bind_def Pure_def split: option.splits Maybe.splits)

lemma ZeroOrMore_Satisfy:
  "ZeroOrMore (Satisfy f) s =
     Some (Just (map of_char (takeWhile (\<lambda>c. f (of_char c)) s),
                 dropWhile (\<lambda>c. f (of_char c)) s))"
proof (induction s)
  case Nil
  show ?case by (simp add: ZeroOrMore_fail Satisfy_Nil)
next
  case (Cons c cs)
  show ?case
  proof (cases "f (of_char c)")
    case True
    then have "Satisfy f (c # cs) = Some (Just (of_char c, cs))" by (simp add: Satisfy_Cons)
    from ZeroOrMore_step[of "Satisfy f" "c # cs", OF this Cons] True show ?thesis by simp
  next
    case False
    then have "Satisfy f (c # cs) = Some Nothing" by (simp add: Satisfy_Cons)
    from ZeroOrMore_fail[of "Satisfy f" "c # cs", OF this] False show ?thesis by simp
  qed
qed

lemma Spaces_eq:
  "Spaces s = Some (Just (takeWhile is_space_byte s, dropWhile is_space_byte s))"
proof -
  have "\<forall>c \<in> set (takeWhile is_space_byte s). (of_char c :: int) < 128"
  proof
    fix c assume "c \<in> set (takeWhile is_space_byte s)"
    then have "is_space_byte c" by (rule set_takeWhileD[THEN conjunct2])
    then show "(of_char c :: int) < 128" by (auto simp: is_space_byte_def)
  qed
  then show ?thesis
  unfolding Spaces_def Space_def
  by (simp add: ZeroOrMore_Satisfy Fmap_def is_space_byte_def[abs_def] space_runes string_of_runes_bytes)
qed

lemma Spaces_rest: "\<exists>v. Spaces s = Some (Just (v, dropWhile is_space_byte s))"
  by (simp add: Spaces_eq)

lemma Trim_eq:
  "Trim p s = do {
     m \<leftarrow> p (dropWhile is_space_byte s);
     case m of
       Nothing \<Rightarrow> Some Nothing
     | Just t \<Rightarrow> Some (Just (fst t, dropWhile is_space_byte (snd t))) }"
proof -
  obtain v where v: "Spaces s = Some (Just (v, dropWhile is_space_byte s))"
    using Spaces_rest by blast
  show ?thesis
  proof (cases "p (dropWhile is_space_byte s)")
    case None
    with v show ?thesis
      by (simp add: Trim_def TrimLeft_def TrimRight_def OmitLeft_def OmitRight_def Bind_def)
  next
    case (Some m)
    show ?thesis
    proof (cases m)
      case Nothing
      with Some v show ?thesis
        by (simp add: Trim_def TrimLeft_def TrimRight_def OmitLeft_def OmitRight_def Bind_def)
    next
      case (Just t)
      obtain w where "Spaces (snd t) = Some (Just (w, dropWhile is_space_byte (snd t)))"
        using Spaces_rest by blast
      with Some Just v show ?thesis
        by (simp add: Trim_def TrimLeft_def TrimRight_def OmitLeft_def OmitRight_def Bind_def Pure_def)
    qed
  qed
qed

text \<open>
  C9. \<^verbatim>\<open>Trim(Trim(p))\<close> returns on every input exactly what \<^verbatim>\<open>Trim(p)\<close> returns: the
  same failure, or the same value and remaining input; and it returns nothing where
  \<^verbatim>\<open>Trim(p)\<close> returns nothing.
\<close>

theorem Trim_idempotent: "Trim (Trim p) s = Trim p s"
proof (cases "p (dropWhile is_space_byte s)")
  case None
  then show ?thesis by (simp add: Trim_eq)
next
  case (Some m)
  then show ?thesis by (cases m) (simp_all add: Trim_eq)
qed

theorem Trim_idempotent_witness:
  "Trim (Trim (Str ''core'')) ''  core   x '' = Some (Just (''core'', ''x '')) \<and>
   Trim (Str ''core'') ''  core   x '' = Some (Just (''core'', ''x ''))"
proof -
  have "Trim (Str ''core'') ''  core   x '' = Some (Just (''core'', ''x ''))"
    by (simp add: Trim_eq is_space_byte_def Str_def)
  then show ?thesis
    using Trim_idempotent[of "Str ''core''" "''  core   x ''"] by simp
qed

section \<open>SepBy\<close>

lemma SepBy_eq:
  "SepBy p sep s = do {
     m \<leftarrow> p s;
     case m of
       Nothing \<Rightarrow> Some (Just ([], s))
     | Just t \<Rightarrow> do {
         m' \<leftarrow> ZeroOrMore (Bind sep (\<lambda>_. p)) (snd t);
         case m' of
           Nothing \<Rightarrow> Some (Just ([], s))
         | Just t' \<Rightarrow> Some (Just (fst t # fst t', snd t')) } }"
proof (cases "p s")
  case None
  then show ?thesis by (simp add: SepBy_def Bind_def)
next
  case (Some m)
  show ?thesis
  proof (cases m)
    case Nothing
    with Some show ?thesis by (simp add: SepBy_def Bind_def Pure_def)
  next
    case (Just t)
    show ?thesis
    proof (cases "ZeroOrMore (Bind sep (\<lambda>_. p)) (snd t)")
      case None
      with Some Just show ?thesis by (simp add: SepBy_def Bind_def Fmap_def)
    next
      case (Some m')
      with ZeroOrMore_not_Nothing have "m' \<noteq> Nothing" by blast
      then obtain t' where "m' = Just t'" by (cases m') auto
      with Some \<open>p s = Some m\<close> Just show ?thesis
        by (simp add: SepBy_def Bind_def Fmap_def)
    qed
  qed
qed

lemma SepBy_never_Nothing: "SepBy p sep s \<noteq> Some Nothing"
  by (auto simp: SepBy_eq split: bind_splits Maybe.splits)

lemma ZeroOrMore_separated:
  assumes "separated p sep s vs s2" and "sep s2 = Some (Just (u, t))" and "p t = Some Nothing"
  shows "ZeroOrMore (Bind sep (\<lambda>_. p)) s = Some (Just (vs, s2))"
  using assms
proof (induction rule: separated.induct)
  case (separated_end s)
  then have "Bind sep (\<lambda>_. p) s = Some Nothing" by (simp add: Bind_def)
  then show ?case by (rule ZeroOrMore_fail[of "Bind sep (\<lambda>_. p)" s])
next
  case (separated_more s u' t' v s1 vs s2)
  then have "Bind sep (\<lambda>_. p) s = Some (Just (v, s1))" by (simp add: Bind_def)
  moreover from separated_more have "ZeroOrMore (Bind sep (\<lambda>_. p)) s1 = Some (Just (vs, s2))"
    by simp
  ultimately show ?case
    by (rule ZeroOrMore_step[of "Bind sep (\<lambda>_. p)" s v s1 vs s2])
qed

lemma SepBy_separated:
  assumes "p s = Some (Just (v, s1))" and "separated p sep s1 vs s2"
    and "sep s2 = Some (Just (u, t))" and "p t = Some Nothing"
  shows "SepBy p sep s = Some (Just (v # vs, s2))"
proof -
  have "ZeroOrMore (Bind sep (\<lambda>_. p)) s1 = Some (Just (vs, s2))"
    using ZeroOrMore_separated[of p sep s1 vs s2 u t] assms by simp
  with assms(1) show ?thesis by (simp add: SepBy_eq)
qed

text \<open>
  C1, as the code has it. \<^verbatim>\<open>SepBy(p, sep)\<close> never returns a failure. On an input of one
  or more matches of \<open>p\<close> separated by matches of \<open>sep\<close>, followed by a last match of
  \<open>sep\<close> after which \<open>p\<close> fails, it succeeds with the values of the matches of \<open>p\<close>, and
  the remaining input starts at the last separator: the trailing separator is not
  consumed.
\<close>

theorem SepBy_trailing_separator:
  "SepBy p sep s \<noteq> Some Nothing \<and>
   (p s = Some (Just (v, s1)) \<and> separated p sep s1 vs s2 \<and>
    sep s2 = Some (Just (u, t)) \<and> p t = Some Nothing \<longrightarrow>
      SepBy p sep s = Some (Just (v # vs, s2)))"
  using SepBy_never_Nothing[of p sep s] SepBy_separated[of p s v s1 sep vs s2 u t] by simp

theorem SepBy_trailing_separator_witness:
  "Str ''item'' ''item,item,'' = Some (Just (''item'', '',item,'')) \<and>
   separated (Str ''item'') (Char_parser (of_char CHR '','')) '',item,'' [''item''] '','' \<and>
   Char_parser (of_char CHR '','') '','' = Some (Just (of_char CHR '','', [])) \<and>
   Str ''item'' [] = Some Nothing \<and>
   SepBy (Str ''item'') (Char_parser (of_char CHR '','')) ''item,item,'' =
     Some (Just ([''item'', ''item''], '',''))"
proof -
  have 1: "Str ''item'' ''item,item,'' = Some (Just (''item'', '',item,''))"
    by (simp add: Str_def)
  have "Char_parser (of_char CHR '','') '',item,'' = Some (Just (of_char CHR '','', ''item,''))"
    by (simp add: Char_parser_def Satisfy_def)
  moreover have "Str ''item'' ''item,'' = Some (Just (''item'', '',''))"
    by (simp add: Str_def)
  ultimately have 2: "separated (Str ''item'') (Char_parser (of_char CHR '','')) '',item,'' [''item''] '',''"
    by (intro separated_more[where u = "of_char CHR '',''" and t = "''item,''" and ?s1.0 = "'',''"] separated_end)
  have 3: "Char_parser (of_char CHR '','') '','' = Some (Just (of_char CHR '','', []))"
    by (simp add: Char_parser_def Satisfy_def)
  have 4: "Str ''item'' [] = Some Nothing" by (simp add: Str_def)
  from 1 2 3 4 show ?thesis
    using SepBy_trailing_separator[of "Str ''item''" "Char_parser (of_char CHR '','')" "''item,item,''"
        "''item''" "'',item,''" "[''item'']" "'',''" "of_char CHR '',''" "[]"]
    by blast
qed

text \<open>
  The claim as the specification states it, "a trailing separator makes the whole
  \<^verbatim>\<open>SepBy\<close> fail", does not hold: on \<^verbatim>\<open>item,item,\<close> the parser succeeds with two items
  and leaves the last comma.
\<close>

theorem SepBy_trailing_separator_succeeds:
  "SepBy (Str ''item'') (Char_parser (of_char CHR '','')) ''item,item,'' =
     Some (Just ([''item'', ''item''], '',''))"
  by (simp add: SepBy_eq Str_def ZeroOrMore_case Bind_def Char_parser_def Satisfy_def)

section \<open>The remaining input is a suffix of the input\<close>

lemma keeps_suffixI:
  assumes "\<And>s v rest. p s = Some (Just (v, rest)) \<Longrightarrow> suffix rest s"
  shows "keeps_suffix p"
  using assms unfolding keeps_suffix_def by blast

lemma keeps_suffixD:
  assumes "keeps_suffix p" and "p s = Some (Just (v, rest))"
  shows "suffix rest s"
  using assms unfolding keeps_suffix_def by blast

lemma keeps_suffix_Pure: "keeps_suffix (Pure v)"
  by (rule keeps_suffixI) (simp add: Pure_def)

lemma keeps_suffix_Fail: "keeps_suffix Fail"
  by (rule keeps_suffixI) (simp add: Fail_def)

lemma keeps_suffix_Satisfy: "keeps_suffix (Satisfy f)"
proof (rule keeps_suffixI)
  fix s v rest
  assume "Satisfy f s = Some (Just (v, rest))"
  then have "s = char_of v # rest" using Satisfy_Just by blast
  then show "suffix rest s" by (simp add: suffix_Cons)
qed

lemma keeps_suffix_Str: "keeps_suffix (Str str)"
  by (rule keeps_suffixI) (auto simp: Str_def suffix_drop split: if_splits)

lemma String_loop_suffix:
  "String_loop cs b escaped = Just (v, rest) \<Longrightarrow> suffix rest cs"
  by (induction cs b escaped rule: String_loop.induct)
     (auto simp: suffix_Cons split: if_splits)

lemma keeps_suffix_String: "keeps_suffix String"
proof (rule keeps_suffixI)
  fix s v rest
  assume a: "String s = Some (Just (v, rest))"
  then have "String_loop (drop 1 s) [] False = Just (v, rest)"
    by (auto simp: String_def split: if_splits)
  then have "suffix rest (drop 1 s)" by (rule String_loop_suffix)
  then show "suffix rest s" using suffix_drop suffix_order.trans by blast
qed

lemma keeps_suffix_Fmap:
  assumes "keeps_suffix p"
  shows "keeps_suffix (Fmap p g)"
proof (rule keeps_suffixI)
  fix s v rest
  assume "Fmap p g s = Some (Just (v, rest))"
  then obtain w where "p s = Some (Just (w, rest))"
    by (auto simp: Fmap_def split: bind_splits Maybe.splits)
  with assms show "suffix rest s" by (rule keeps_suffixD)
qed

lemma keeps_suffix_Bind:
  assumes "keeps_suffix p" and "\<And>t. keeps_suffix (k t)"
  shows "keeps_suffix (Bind p k)"
proof (rule keeps_suffixI)
  fix s v rest
  assume "Bind p k s = Some (Just (v, rest))"
  then obtain w s1 where 1: "p s = Some (Just (w, s1))" and 2: "k w s1 = Some (Just (v, rest))"
    by (auto simp: Bind_def split: bind_splits Maybe.splits)
  from assms(1) 1 have "suffix s1 s" by (rule keeps_suffixD)
  moreover from assms(2) 2 have "suffix rest s1" by (rule keeps_suffixD)
  ultimately show "suffix rest s" using suffix_order.trans by blast
qed

lemma keeps_suffix_OrElse:
  assumes "\<And>p. p \<in> set ps \<Longrightarrow> keeps_suffix p"
  shows "keeps_suffix (OrElse ps)"
proof (rule keeps_suffixI)
  fix s v rest
  assume "OrElse ps s = Some (Just (v, rest))"
  then have "first_success ps s (v, rest)" by (simp add: OrElse_Just_iff)
  then obtain i where i: "i < length ps" and e: "(ps ! i) s = Some (Just (v, rest))"
    unfolding first_success_def by blast
  from i have "keeps_suffix (ps ! i)" using assms by simp
  then show "suffix rest s" using e by (rule keeps_suffixD)
qed

lemma ZeroOrMore_suffix:
  assumes "ZeroOrMore p s = Some m"
  shows "keeps_suffix p \<longrightarrow> (\<forall>vs rest. m = Just (vs, rest) \<longrightarrow> suffix rest s)"
proof (rule ZeroOrMore.raw_induct[where
      P = "\<lambda>p s m. keeps_suffix p \<longrightarrow> (\<forall>vs rest. m = Just (vs, rest) \<longrightarrow> suffix rest s)",
      OF _ assms])
  fix zom :: "'a Parser \<Rightarrow> string \<Rightarrow> 'a list ParserFuncRet option" and p s m
  assume IH: "\<And>q t y. zom q t = Some y \<Longrightarrow>
      keeps_suffix q \<longrightarrow> (\<forall>vs rest. y = Just (vs, rest) \<longrightarrow> suffix rest t)"
    and eq: "do { m \<leftarrow> p s;
              case m of
                Nothing \<Rightarrow> Some (Just ([], s))
              | Just t \<Rightarrow> Bind (zom p) (\<lambda>ts. Pure (fst t # ts)) (snd t) } = Some m"
  show "keeps_suffix p \<longrightarrow> (\<forall>vs rest. m = Just (vs, rest) \<longrightarrow> suffix rest s)"
  proof (intro impI allI)
    fix vs rest
    assume ks: "keeps_suffix p" and m: "m = Just (vs, rest)"
    from eq obtain m0 where m0: "p s = Some m0" by (auto split: bind_splits)
    show "suffix rest s"
    proof (cases m0)
      case Nothing
      with eq m0 m show ?thesis by simp
    next
      case (Just t)
      with eq m0 m obtain ws where z: "zom p (snd t) = Some (Just (ws, rest))"
        by (auto simp: Bind_def Pure_def split: bind_splits Maybe.splits)
      from IH[OF z] ks have "suffix rest (snd t)" by blast
      moreover from ks m0 Just have "suffix (snd t) s" by (cases t) (auto dest: keeps_suffixD)
      ultimately show ?thesis using suffix_order.trans by blast
    qed
  qed
qed

lemma keeps_suffix_ZeroOrMore:
  assumes "keeps_suffix p"
  shows "keeps_suffix (ZeroOrMore p)"
proof (rule keeps_suffixI)
  fix s vs rest
  assume "ZeroOrMore p s = Some (Just (vs, rest))"
  from ZeroOrMore_suffix[OF this] assms show "suffix rest s" by simp
qed

lemma keeps_suffix_OneOrMore:
  assumes "keeps_suffix p"
  shows "keeps_suffix (OneOrMore p)"
proof -
  have "OneOrMore p = Bind p (\<lambda>t. Bind (ZeroOrMore p) (\<lambda>ts. Pure (t # ts)))"
    by (rule ext) (simp add: OneOrMore_def Bind_def)
  with assms show ?thesis
    by (simp add: keeps_suffix_Bind keeps_suffix_ZeroOrMore keeps_suffix_Pure)
qed

lemma keeps_suffix_ZeroOrOne:
  assumes "keeps_suffix p"
  shows "keeps_suffix (ZeroOrOne p)"
proof (rule keeps_suffixI)
  fix s v rest
  assume "ZeroOrOne p s = Some (Just (v, rest))"
  then have "rest = s \<or> (\<exists>w. p s = Some (Just (w, rest)))"
    by (auto simp: ZeroOrOne_def split: bind_splits Maybe.splits)
  with assms show "suffix rest s" by (auto dest: keeps_suffixD)
qed

lemma keeps_suffix_OmitLeft:
  assumes "keeps_suffix p" and "keeps_suffix q"
  shows "keeps_suffix (OmitLeft p q)"
  using assms by (simp add: OmitLeft_def keeps_suffix_Bind)

lemma keeps_suffix_OmitRight:
  assumes "keeps_suffix p" and "keeps_suffix q"
  shows "keeps_suffix (OmitRight p q)"
  using assms by (simp add: OmitRight_def keeps_suffix_Bind keeps_suffix_Pure)

lemma keeps_suffix_SepBy:
  assumes "keeps_suffix p" and "keeps_suffix sep"
  shows "keeps_suffix (SepBy p sep)"
  unfolding SepBy_def using assms
  by (intro keeps_suffix_OrElse)
     (auto intro!: keeps_suffix_Bind keeps_suffix_Fmap keeps_suffix_ZeroOrMore keeps_suffix_Pure)

lemma keeps_suffix_SatisfyWith:
  assumes "keeps_suffix p"
  shows "keeps_suffix (SatisfyWith p f)"
  unfolding SatisfyWith_def using assms
  by (intro keeps_suffix_Bind) (auto simp: keeps_suffix_Pure keeps_suffix_Fail)

lemma keeps_suffix_Spaces: "keeps_suffix Spaces"
  unfolding Spaces_def Space_def
  by (intro keeps_suffix_Fmap keeps_suffix_ZeroOrMore keeps_suffix_Satisfy)

lemma keeps_suffix_Trim:
  assumes "keeps_suffix p"
  shows "keeps_suffix (Trim p)"
  unfolding Trim_def TrimLeft_def TrimRight_def using assms
  by (intro keeps_suffix_OmitLeft keeps_suffix_OmitRight keeps_suffix_Spaces)

lemma keeps_suffix_Seq:
  assumes "\<And>p. p \<in> set ps \<Longrightarrow> keeps_suffix p"
  shows "keeps_suffix (Seq ps)"
  using assms
proof (induction ps)
  case Nil
  show ?case by (rule keeps_suffixI) simp
next
  case (Cons p ps)
  then show ?case by (auto intro!: keeps_suffix_Bind keeps_suffix_Pure)
qed

lemma keeps_suffix_Between:
  assumes "keeps_suffix p" and "keeps_suffix q" and "keeps_suffix r"
  shows "keeps_suffix (Between p q r)"
  unfolding Between_def using assms
  by (intro keeps_suffix_Bind keeps_suffix_Pure)

lemma keeps_suffix_Lazy:
  assumes "keeps_suffix (f ())"
  shows "keeps_suffix (Lazy f)"
  using assms by (simp add: keeps_suffix_def Lazy_def)

text \<open>
  C7. Every primitive of the library keeps the suffix property, and every combinator
  gives a parser that keeps it when the parsers it is given keep it. So every parser
  built from them returns, when it succeeds, a remaining input that is a suffix of the
  input it was given.
\<close>

theorem parsers_keep_suffix:
  "keeps_suffix (Pure v) \<and> keeps_suffix (Fail :: 'a Parser) \<and> keeps_suffix (Satisfy f) \<and>
   keeps_suffix (Str str) \<and> keeps_suffix String \<and>
   (keeps_suffix p \<longrightarrow> keeps_suffix (Fmap p g)) \<and>
   (keeps_suffix p \<and> (\<forall>t. keeps_suffix (k t)) \<longrightarrow> keeps_suffix (Bind p k)) \<and>
   ((\<forall>q \<in> set ps. keeps_suffix q) \<longrightarrow> keeps_suffix (OrElse ps)) \<and>
   (keeps_suffix p \<longrightarrow> keeps_suffix (ZeroOrMore p)) \<and>
   (keeps_suffix p \<longrightarrow> keeps_suffix (OneOrMore p)) \<and>
   (keeps_suffix p \<longrightarrow> keeps_suffix (ZeroOrOne p)) \<and>
   (keeps_suffix p \<and> keeps_suffix sep \<longrightarrow> keeps_suffix (SepBy p sep)) \<and>
   ((\<forall>q \<in> set ps. keeps_suffix q) \<longrightarrow> keeps_suffix (Seq ps)) \<and>
   (keeps_suffix po \<and> keeps_suffix p \<and> keeps_suffix pc \<longrightarrow> keeps_suffix (Between po p pc)) \<and>
   (keeps_suffix p \<and> keeps_suffix q \<longrightarrow> keeps_suffix (OmitLeft p q)) \<and>
   (keeps_suffix p \<and> keeps_suffix q \<longrightarrow> keeps_suffix (OmitRight p q)) \<and>
   (keeps_suffix p \<longrightarrow> keeps_suffix (Trim p)) \<and>
   (keeps_suffix (th ()) \<longrightarrow> keeps_suffix (Lazy th)) \<and>
   (keeps_suffix p \<longrightarrow> keeps_suffix (SatisfyWith p pr))"
proof -
  have 1: "keeps_suffix (Pure v) \<and> keeps_suffix (Fail :: 'a Parser) \<and> keeps_suffix (Satisfy f) \<and>
   keeps_suffix (Str str) \<and> keeps_suffix String"
    by (simp add: keeps_suffix_Pure keeps_suffix_Fail keeps_suffix_Satisfy keeps_suffix_Str
        keeps_suffix_String)
  have 2: "keeps_suffix p \<longrightarrow> keeps_suffix (Fmap p g)"
    by (simp add: keeps_suffix_Fmap)
  have 3: "keeps_suffix p \<and> (\<forall>t. keeps_suffix (k t)) \<longrightarrow> keeps_suffix (Bind p k)"
    by (simp add: keeps_suffix_Bind)
  have 4: "(\<forall>q \<in> set ps. keeps_suffix q) \<longrightarrow> keeps_suffix (OrElse ps)"
    by (simp add: keeps_suffix_OrElse)
  have 5: "(keeps_suffix p \<longrightarrow> keeps_suffix (ZeroOrMore p)) \<and>
   (keeps_suffix p \<longrightarrow> keeps_suffix (OneOrMore p)) \<and>
   (keeps_suffix p \<longrightarrow> keeps_suffix (ZeroOrOne p))"
    by (simp add: keeps_suffix_ZeroOrMore keeps_suffix_OneOrMore keeps_suffix_ZeroOrOne)
  have 6: "keeps_suffix p \<and> keeps_suffix sep \<longrightarrow> keeps_suffix (SepBy p sep)"
    by (simp add: keeps_suffix_SepBy)
  have 7: "(\<forall>q \<in> set ps. keeps_suffix q) \<longrightarrow> keeps_suffix (Seq ps)"
    by (simp add: keeps_suffix_Seq)
  have 8: "keeps_suffix po \<and> keeps_suffix p \<and> keeps_suffix pc \<longrightarrow> keeps_suffix (Between po p pc)"
    by (simp add: keeps_suffix_Between)
  have 9: "(keeps_suffix p \<and> keeps_suffix q \<longrightarrow> keeps_suffix (OmitLeft p q)) \<and>
   (keeps_suffix p \<and> keeps_suffix q \<longrightarrow> keeps_suffix (OmitRight p q))"
    by (simp add: keeps_suffix_OmitLeft keeps_suffix_OmitRight)
  have 10: "(keeps_suffix p \<longrightarrow> keeps_suffix (Trim p)) \<and>
   (keeps_suffix (th ()) \<longrightarrow> keeps_suffix (Lazy th)) \<and>
   (keeps_suffix p \<longrightarrow> keeps_suffix (SatisfyWith p pr))"
    by (simp add: keeps_suffix_Trim keeps_suffix_Lazy keeps_suffix_SatisfyWith)
  from 1 2 3 4 5 6 7 8 9 10 show ?thesis by simp
qed

theorem parsers_keep_suffix_witness:
  "keeps_suffix (Trim (Bind (Str ''ab'') (\<lambda>_. ZeroOrMore (Satisfy (\<lambda>r. r = 99))))) \<and>
   Trim (Bind (Str ''ab'') (\<lambda>_. ZeroOrMore (Satisfy (\<lambda>r. r = 99)))) '' abcc d'' =
     Some (Just ([99, 99], ''d'')) \<and>
   suffix ''d'' '' abcc d''"
proof -
  let ?A = "Satisfy (\<lambda>r. r = 99)"
  let ?B = "ZeroOrMore ?A"
  let ?C = "Bind (Str ''ab'') (\<lambda>_ :: string. ?B)"
  note c3 = parsers_keep_suffix[THEN conjunct2, THEN conjunct2, THEN conjunct1]
  note c4 = parsers_keep_suffix[THEN conjunct2, THEN conjunct2, THEN conjunct2, THEN conjunct1]
  note c7 = parsers_keep_suffix[THEN conjunct2, THEN conjunct2, THEN conjunct2, THEN conjunct2, THEN conjunct2, THEN conjunct2, THEN conjunct1, THEN mp]
  note c9 = parsers_keep_suffix[THEN conjunct2, THEN conjunct2, THEN conjunct2, THEN conjunct2, THEN conjunct2, THEN conjunct2, THEN conjunct2, THEN conjunct2, THEN conjunct1, THEN mp]
  note c17 = parsers_keep_suffix[THEN conjunct2, THEN conjunct2, THEN conjunct2, THEN conjunct2, THEN conjunct2, THEN conjunct2, THEN conjunct2, THEN conjunct2, THEN conjunct2, THEN conjunct2, THEN conjunct2, THEN conjunct2, THEN conjunct2, THEN conjunct2, THEN conjunct2, THEN conjunct2, THEN conjunct1, THEN mp]
  have A: "keeps_suffix ?A" by (rule c3)
  have B: "keeps_suffix ?B" using A by (rule c9)
  have S: "keeps_suffix (Str ''ab'')" by (rule c4)
  have C: "keeps_suffix ?C" using S B by (intro c7) simp
  have D: "keeps_suffix (Trim ?C)" using C by (rule c17)
  have E: "Trim ?C '' abcc d'' = Some (Just ([99, 99], ''d''))"
    by (simp add: Trim_eq is_space_byte_def Bind_def Str_def ZeroOrMore_Satisfy)
  from D E have "suffix ''d'' '' abcc d''" by (rule keeps_suffixD)
  with D E show ?thesis by simp
qed

section \<open>The quoted string\<close>

lemma String_loop_pieces:
  assumes "list_all well_formed ps"
  shows "String_loop (source_text ps @ tail) b False = String_loop tail (b @ contents ps) False"
  using assms
proof (induction ps arbitrary: b)
  case Nil
  show ?case by (simp add: source_text_def contents_def)
next
  case (Cons x xs)
  then have IH: "\<And>b. String_loop (source_text xs @ tail) b False =
      String_loop tail (b @ contents xs) False"
    by simp
  show ?case
  proof (cases x)
    case (Plain c)
    with Cons.prems have "c \<noteq> CHR 0x5C" "c \<noteq> CHR 0x22" by simp_all
    with Plain IH[of "b @ [c]"] show ?thesis by (simp add: source_text_def contents_def)
  next
    case (Escaped c)
    with IH[of "b @ [c]"] show ?thesis by (simp add: source_text_def contents_def)
  qed
qed

lemma String_closed:
  assumes "list_all well_formed ps"
  shows "String (CHR 0x22 # source_text ps @ CHR 0x22 # rest) = Some (Just (contents ps, rest))"
  using String_loop_pieces[OF assms, of "CHR 0x22 # rest" "[]"] by (simp add: String_def)

lemma String_unclosed:
  assumes "list_all well_formed ps"
  shows "String (CHR 0x22 # source_text ps) = Some Nothing"
    and "String (CHR 0x22 # source_text ps @ [CHR 0x5C]) = Some Nothing"
  using String_loop_pieces[OF assms, of "[]" "[]"] String_loop_pieces[OF assms, of "[CHR 0x5C]" "[]"]
  by (simp_all add: String_def)

lemma String_no_quote:
  assumes "s = [] \<or> hd s \<noteq> CHR 0x22"
  shows "String s = Some Nothing"
  using assms by (cases s) (auto simp: String_def)

lemma String_loop_Just:
  "String_loop cs b escaped = Just (v, rest) \<Longrightarrow>
   (\<exists>ps. list_all well_formed ps \<and>
      (if escaped then \<exists>c. cs = c # source_text ps @ CHR 0x22 # rest \<and> v = b @ c # contents ps
       else cs = source_text ps @ CHR 0x22 # rest \<and> v = b @ contents ps))"
proof (induction cs b escaped rule: String_loop.induct)
  case (1 b escaped)
  then show ?case by simp
next
  case (2 c cs b escaped)
  show ?case
  proof (cases escaped)
    case True
    with 2 obtain ps where ps: "list_all well_formed ps" "cs = source_text ps @ CHR 0x22 # rest"
      "v = (b @ [c]) @ contents ps" by auto
    with True show ?thesis by (intro exI[of _ ps]) simp
  next
    case False
    show ?thesis
    proof (cases "c = CHR 0x5C")
      case True
      with False 2 obtain ps d where ps: "list_all well_formed ps"
        "cs = d # source_text ps @ CHR 0x22 # rest" "v = b @ d # contents ps" by auto
      with True False show ?thesis
        by (intro exI[of _ "Escaped d # ps"]) (simp add: source_text_def contents_def)
    next
      case nb: False
      show ?thesis
      proof (cases "c = CHR 0x22")
        case True
        with False nb 2 show ?thesis
          by (intro exI[of _ "[]"]) (simp add: source_text_def contents_def)
      next
        case nq: False
        with False nb 2 obtain ps where ps: "list_all well_formed ps"
          "cs = source_text ps @ CHR 0x22 # rest" "v = (b @ [c]) @ contents ps" by auto
        with False nb nq show ?thesis
          by (intro exI[of _ "Plain c # ps"]) (simp add: source_text_def contents_def)
      qed
    qed
  qed
qed

lemma String_Just:
  assumes "String s = Some (Just (v, rest))"
  shows "\<exists>ps. list_all well_formed ps \<and> s = CHR 0x22 # source_text ps @ CHR 0x22 # rest \<and>
     v = contents ps"
proof -
  from assms obtain cs where s: "s = CHR 0x22 # cs" and l: "String_loop cs [] False = Just (v, rest)"
    by (cases s) (auto simp: String_def split: if_splits)
  from String_loop_Just[OF l] s show ?thesis by auto
qed

lemma String_returns: "String s \<noteq> None"
  by (simp add: String_def)

text \<open>
  C8. \<^verbatim>\<open>String\<close> fails on an input that does not start with a double quote. After the
  opening quote, on well-formed pieces followed by a double quote, it succeeds: the
  value is the contents of the pieces (an escaped character is taken as it is, with no
  translation) and the remaining input is the text after the closing quote. On
  well-formed pieces with no double quote after them, also when a lone backslash ends
  the input, it fails. Every success is of the first form, and \<^verbatim>\<open>String\<close> always
  returns.
\<close>

theorem String_quoted:
  "(s = [] \<or> hd s \<noteq> CHR 0x22 \<longrightarrow> String s = Some Nothing) \<and>
   (list_all well_formed ps \<longrightarrow>
      String (CHR 0x22 # source_text ps @ CHR 0x22 # rest) = Some (Just (contents ps, rest))) \<and>
   (list_all well_formed ps \<longrightarrow>
      String (CHR 0x22 # source_text ps) = Some Nothing \<and>
      String (CHR 0x22 # source_text ps @ [CHR 0x5C]) = Some Nothing) \<and>
   (String s = Some (Just (v, r)) \<longrightarrow>
      (\<exists>qs. list_all well_formed qs \<and> s = CHR 0x22 # source_text qs @ CHR 0x22 # r \<and>
         v = contents qs)) \<and>
   String s \<noteq> None"
  using String_no_quote[of s] String_closed[of ps rest] String_unclosed[of ps]
    String_Just[of s v r] String_returns[of s]
  by blast

text \<open>
  The literal \<^verbatim>\<open>"a\n\"b"\<close> followed by \<^verbatim>\<open>xy\<close>: the contents are \<^verbatim>\<open>an"b\<close>, the letter n and
  not a newline.
\<close>

theorem String_quoted_witness:
  "list_all well_formed [Plain CHR ''a'', Escaped CHR ''n'', Escaped (CHR 0x22), Plain CHR ''b''] \<and>
   String [CHR 0x22, CHR ''a'', CHR 0x5C, CHR ''n'', CHR 0x5C, CHR 0x22, CHR ''b'', CHR 0x22,
           CHR ''x'', CHR ''y''] =
     Some (Just ([CHR ''a'', CHR ''n'', CHR 0x22, CHR ''b''], ''xy'')) \<and>
   String [CHR 0x22, CHR ''a'', CHR 0x5C, CHR ''n'', CHR 0x5C, CHR 0x22, CHR ''b''] = Some Nothing \<and>
   String [CHR 0x22, CHR ''a'', CHR 0x5C, CHR ''n'', CHR 0x5C, CHR 0x22, CHR ''b'', CHR 0x5C] =
     Some Nothing \<and>
   String ''abc'' = Some Nothing"
proof -
  let ?ps = "[Plain CHR ''a'', Escaped CHR ''n'', Escaped (CHR 0x22), Plain CHR ''b'']"
  have wf: "list_all well_formed ?ps" by simp
  have nq: "''abc'' = [] \<or> hd ''abc'' \<noteq> CHR 0x22" by simp
  from wf nq show ?thesis
    using String_quoted[of "''abc''" ?ps "''xy''"]
    by (simp add: source_text_def contents_def)
qed

lemma OneOrMore_Satisfy:
  "OneOrMore (Satisfy f) s =
     (if s \<noteq> [] \<and> f (of_char (hd s))
      then Some (Just (map of_char (takeWhile (\<lambda>c. f (of_char c)) s),
                       dropWhile (\<lambda>c. f (of_char c)) s))
      else Some Nothing)"
proof (cases s)
  case Nil
  then show ?thesis by (simp add: OneOrMore_def Satisfy_Nil)
next
  case (Cons c cs)
  then show ?thesis
    by (simp add: OneOrMore_def Satisfy_Cons ZeroOrMore_Satisfy Bind_def Pure_def)
qed

section \<open>The JSON value 3.14\<close>

lemma JString_314: "JString ''3.14'' = Some Nothing"
  by (simp add: JString_def Trim_eq is_space_byte_def Fmap_def String_def)

lemma Digits_3: "Digits ''3.14'' = Some (Just (''3'', ''.14''))"
  by (simp add: Digits_def Digit_def Fmap_def OneOrMore_Satisfy string_of_runes_def
      string_of_rune_def char_of_def)

lemma Digits_14: "Digits ''14'' = Some (Just (''14'', []))"
  by (simp add: Digits_def Digit_def Fmap_def OneOrMore_Satisfy string_of_runes_def
      string_of_rune_def char_of_def)

lemma Sign_314: "Sign ''3.14'' = Some (Just (of_char CHR ''+'', ''3.14''))"
  by (simp add: Sign_def Bind_def ZeroOrOne_def Char_parser_def Satisfy_def Pure_def)

lemma FloatWithoutSign_314: "FloatWithoutSign pf ''3.14'' = Some (Just (pf ''3.14'', []))"
  by (simp add: FloatWithoutSign_def Fmap_def Bind_def Pure_def Digits_3 Digits_14 Char_parser_def
      Satisfy_def string_of_rune_def char_of_def)

lemma Float_314: "Float pf fneg ''3.14'' = Some (Just (pf ''3.14'', []))"
  by (simp add: Float_def Bind_def Fmap_def Sign_314 FloatWithoutSign_314)

lemma JFloat_314: "JFloat pf fneg ''3.14'' = Some (Just (JsonFloat (pf ''3.14''), []))"
  by (simp add: JFloat_def Trim_eq is_space_byte_def Fmap_def Float_314)

lemma Integer_314: "Integer ''3.14'' = Some (Just (3, ''.14''))"
  by (simp add: Integer_def IntegerWithoutSign_def Bind_def Fmap_def Sign_314 Digits_3
      ParseInt_def is_digit_byte_def digits_value_def)

lemma JInt_314: "JInt ''3.14'' = Some (Just (JsonInt 3, ''.14''))"
  by (simp add: JInt_def Trim_eq is_space_byte_def Fmap_def Integer_314)

text \<open>
  C3. With at least one level of nesting allowed, \<^verbatim>\<open>JVal\<close> on \<^verbatim>\<open>3.14\<close> succeeds with the
  float that \<^verbatim>\<open>strconv.ParseFloat\<close> gives for \<^verbatim>\<open>3.14\<close> and with nothing left of the input;
  it does not return the integer 3 with \<^verbatim>\<open>.14\<close> left. The integer parser alone, and the
  alternation in the other order, do return the integer 3 with \<^verbatim>\<open>.14\<close> left.
\<close>

theorem JVal_float_before_integer:
  "JVal pf fneg (Suc n) ''3.14'' = Some (Just (JsonFloat (pf ''3.14''), [])) \<and>
   ParseJSON pf fneg (Suc n) ''3.14'' = Some (Just (JsonFloat (pf ''3.14''), [])) \<and>
   JVal pf fneg (Suc n) ''3.14'' \<noteq> Some (Just (JsonInt 3, ''.14'')) \<and>
   JInt ''3.14'' = Some (Just (JsonInt 3 :: 'f Json, ''.14'')) \<and>
   OrElse [JInt, JFloat pf fneg] ''3.14'' = Some (Just (JsonInt 3, ''.14''))"
  by (simp add: ParseJSON_def JString_314 JFloat_314 JInt_314)

theorem JVal_float_before_integer_witness:
  "ParseJSON (\<lambda>s. s) (\<lambda>f. CHR ''-'' # f) (Suc 0) ''3.14'' = Some (Just (JsonFloat ''3.14'', []))"
  by (rule JVal_float_before_integer[of "\<lambda>s. s" "\<lambda>f. CHR ''-'' # f" 0,
        THEN conjunct2, THEN conjunct1])

section \<open>The INI reader on a line without an equals sign\<close>

lemma Split_section_keyvalue:
  "Split (''[section]'' @ [CHR 0x0A] @ ''keyvalue'') (CHR 0x0A) = [''[section]'', ''keyvalue'']"
  by (simp add: Split.simps)

lemma Split_keyvalue: "Split ''keyvalue'' (CHR ''='') = [''keyvalue'']"
  by (simp add: Split.simps)

lemma TrimSpace_section: "TrimSpace ''[section]'' = ''[section]''"
  by (simp add: TrimSpace_def trim_space_left.simps trim_space_right.simps unicode_spaces_def
      suffix_to_prefix)

lemma TrimSpace_name: "TrimSpace ''section'' = ''section''"
  by (simp add: TrimSpace_def trim_space_left.simps trim_space_right.simps unicode_spaces_def
      suffix_to_prefix)

lemma TrimSpace_keyvalue: "TrimSpace ''keyvalue'' = ''keyvalue''"
  by (simp add: TrimSpace_def trim_space_left.simps trim_space_right.simps unicode_spaces_def
      suffix_to_prefix)

lemma ZeroOrMore_NotChar:
  "ZeroOrMore (NotChar c) s =
     Some (Just (map of_char (takeWhile (\<lambda>b. of_char b \<noteq> c) s),
                 dropWhile (\<lambda>b. of_char b \<noteq> c) s))"
  unfolding NotChar_def by (rule ZeroOrMore_Satisfy)

lemma ISectionName_section: "ISectionName ''[section]'' = Some (Just (''section'', []))"
  by (simp add: ISectionName_def Between_def Bind_def Trim_eq is_space_byte_def Char_parser_def
      Satisfy_def ZeroOrMore_NotChar string_of_runes_def string_of_rune_def char_of_def
      TrimSpace_name Pure_def)

lemma ISectionName_keyvalue: "ISectionName ''keyvalue'' = Some Nothing"
  by (simp add: ISectionName_def Between_def Bind_def Trim_eq is_space_byte_def Char_parser_def
      Satisfy_def)

lemma ISectionName_v1_section: "ISectionName_v1 ''[section]'' = Some (Just (''section'', []))"
  by (simp add: ISectionName_v1_def Between_def Bind_def Trim_eq is_space_byte_def Char_parser_def
      Satisfy_def ToString_runes_def Fmap_def ZeroOrMore_NotChar string_of_runes_def
      string_of_rune_def char_of_def Pure_def)

lemma ISectionName_v1_keyvalue: "ISectionName_v1 ''keyvalue'' = Some Nothing"
  by (simp add: ISectionName_v1_def Between_def Bind_def Trim_eq is_space_byte_def Char_parser_def
      Satisfy_def)

lemma IEntry_key_keyvalue:
  "ToString_runes (OneOrMore (NotChar 61)) True ''keyvalue'' = Some (Just (''keyvalue'', []))"
  unfolding NotChar_def
  by (simp add: ToString_runes_def Fmap_def Trim_eq is_space_byte_def OneOrMore_Satisfy
      string_of_runes_def string_of_rune_def char_of_def)

lemma IEntry_equals_at_end: "ToString_rune (Char_parser 61) True [] = Some Nothing"
  by (simp add: ToString_rune_def Fmap_def Trim_eq Char_parser_def Satisfy_def)

lemma IEntry_keyvalue: "IEntry ''keyvalue'' = Some Nothing"
  by (simp add: IEntry_def Fmap_partial_def Bind_def IEntry_key_keyvalue IEntry_equals_at_end)

lemma IniParse_loop_keyvalue:
  "IniParse_loop [] [''[section]'', ''keyvalue''] = Inl IndexOutOfRange"
  by (simp add: TrimSpace_section TrimSpace_keyvalue ISectionName_section ISectionName_keyvalue
      Split_keyvalue)

lemma IniParse_loop_v1_keyvalue:
  "IniParse_loop_v1 [] [''[section]'', ''keyvalue''] = Inr [\<lparr>Name = ''section'', Entries = []\<rparr>]"
  by (simp add: TrimSpace_section TrimSpace_keyvalue ISectionName_v1_section
      ISectionName_v1_keyvalue IEntry_keyvalue)

lemma IniParse_never_Nothing: "IniParse input \<noteq> Some Nothing"
  by (simp add: IniParse_def split: sum.splits)

lemma IniParse_v1_never_Nothing: "IniParse_v1 input \<noteq> Some Nothing"
  by (simp add: IniParse_v1_def split: sum.splits)

lemma TrimSpace_key_value: "TrimSpace ''key=value'' = ''key=value''"
  by (simp add: TrimSpace_def trim_space_left.simps trim_space_right.simps unicode_spaces_def
      suffix_to_prefix)

lemma Split_key_value_lines: "Split ''key=value'' (CHR 0x0A) = [''key=value'']"
  by (simp add: Split.simps)

lemma Split_key_value: "Split ''key=value'' (CHR ''='') = [''key'', ''value'']"
  by (simp add: Split.simps)

lemma ISectionName_key_value: "ISectionName ''key=value'' = Some Nothing"
  by (simp add: ISectionName_def Between_def Bind_def Trim_eq is_space_byte_def Char_parser_def
      Satisfy_def)

lemma IniParse_loop_key_value: "IniParse_loop [] [''key=value''] = Inl IndexOutOfRange"
  by (simp add: TrimSpace_key_value ISectionName_key_value Split_key_value)

text \<open>
  C2. The claim asks for a failure; the code never returns one. On the section line
  followed by \<^verbatim>\<open>keyvalue\<close>, the later version of \<^verbatim>\<open>IniParse\<close> reads element 1 of a split
  that has one element, an index out of range, and returns nothing; the earlier
  version leaves its loop and succeeds with the section read so far. On an entry line
  before any section the later version indexes an empty slice of sections. Neither
  version returns a failure on any input.
\<close>

theorem IniParse_never_returns_failure:
  "IniParse_loop [] (Split (''[section]'' @ [CHR 0x0A] @ ''keyvalue'') (CHR 0x0A)) =
     Inl IndexOutOfRange \<and>
   IniParse (''[section]'' @ [CHR 0x0A] @ ''keyvalue'') = None \<and>
   IniParse_v1 (''[section]'' @ [CHR 0x0A] @ ''keyvalue'') =
     Some (Just (\<lparr>Sections = [\<lparr>Name = ''section'', Entries = []\<rparr>]\<rparr>, [])) \<and>
   IniParse ''key=value'' = None \<and>
   IniParse input \<noteq> Some Nothing \<and>
   IniParse_v1 input \<noteq> Some Nothing"
proof -
  have 1: "IniParse_loop [] (Split (''[section]'' @ [CHR 0x0A] @ ''keyvalue'') (CHR 0x0A)) =
     Inl IndexOutOfRange"
    by (simp only: Split_section_keyvalue IniParse_loop_keyvalue)
  then have 2: "IniParse (''[section]'' @ [CHR 0x0A] @ ''keyvalue'') = None"
    unfolding IniParse_def by (simp only: sum.case)
  have 3: "IniParse_v1 (''[section]'' @ [CHR 0x0A] @ ''keyvalue'') =
     Some (Just (\<lparr>Sections = [\<lparr>Name = ''section'', Entries = []\<rparr>]\<rparr>, []))"
    unfolding IniParse_v1_def
    by (simp only: Split_section_keyvalue IniParse_loop_v1_keyvalue sum.case)
  have 4: "IniParse ''key=value'' = None"
    unfolding IniParse_def
    by (simp only: Split_key_value_lines IniParse_loop_key_value sum.case)
  from 1 2 3 4 show ?thesis
    using IniParse_never_Nothing IniParse_v1_never_Nothing by blast
qed

end
